theory Spec2Isabelle
  imports Complex_Main "HOL-Library.Word"
begin

section \<open>Python values shared by both scripts\<close>

text \<open>
  A Python \<open>str\<close> is a sequence of Unicode code points, so it is modelled as a list of
  natural numbers; \<open>str\<close> turns an ASCII literal of the source into that list.
  \<open>bytes\<close> are lists of 8-bit words.
\<close>

type_synonym pystr = "nat list"

type_synonym bytes = "8 word list"

definition str :: "string \<Rightarrow> pystr" where
  "str s = map of_char s"

text \<open>The exception classes that the two scripts name or can meet.\<close>

datatype py_exception =
    RuntimeError
  | FileNotFoundError
  | PermissionError
  | IsADirectoryError
  | AttributeError
  | TypeError
  | KeyError
  | IndexError
  | OtherException

text \<open>\<open>s.startswith(p)\<close> and \<open>s.endswith(p)\<close>, written so that they compute.\<close>

definition startswith :: "pystr \<Rightarrow> pystr \<Rightarrow> bool" where
  "startswith s p = (take (length p) s = p)"

definition endswith :: "pystr \<Rightarrow> pystr \<Rightarrow> bool" where
  "endswith s p = (length p \<le> length s \<and> drop (length s - length p) s = p)"

section \<open>The file system and the network, as the scripts see them\<close>

text \<open>
  A path names a regular file with its content, a directory, or nothing.
  \<open>may_modify p\<close> says whether the entry at \<open>p\<close> may be created or unlinked (on POSIX:
  whether the containing directory is writable); creating a file and removing it ask
  for the same permission. \<open>requests_sent\<close> records every URL handed to \<open>requests.get\<close>.
  \<open>file_ops\<close> records, in the order they happen, the files that \<open>download_pdf\<close> creates
  with \<open>open\<close> and removes with \<open>os.remove\<close>: a file that is created and removed again
  leaves the store as it was, and only this record tells the two from doing nothing.
\<close>

datatype node = File bytes | Directory

datatype file_op = Created pystr | Removed pystr

record world =
  files :: "pystr \<rightharpoonup> node"
  may_modify :: "pystr \<Rightarrow> bool"
  requests_sent :: "pystr list"
  file_ops :: "file_op list"

definition note_op :: "file_op \<Rightarrow> world \<Rightarrow> world" where
  "note_op op w = w\<lparr>file_ops := file_ops w @ [op]\<rparr>"

definition os_path_exists :: "world \<Rightarrow> pystr \<Rightarrow> bool" where
  "os_path_exists w p = (files w p \<noteq> None)"

definition os_path_isfile :: "world \<Rightarrow> pystr \<Rightarrow> bool" where
  "os_path_isfile w p = (case files w p of Some (File b) \<Rightarrow> True | _ \<Rightarrow> False)"

text \<open>\<open>os.remove(p)\<close>: unlinks a regular file, raises otherwise.\<close>

definition os_remove :: "world \<Rightarrow> pystr \<Rightarrow> py_exception + world" where
  "os_remove w p =
     (case files w p of
        None \<Rightarrow> Inl FileNotFoundError
      | Some Directory \<Rightarrow> Inl IsADirectoryError
      | Some (File b) \<Rightarrow>
          if may_modify w p then Inr (w\<lparr>files := (files w)(p := None)\<rparr>)
          else Inl PermissionError)"

section \<open>pdf\_validator.py\<close>

subsection \<open>validate\_pdf\_file\<close>

text \<open>
  \<open>fitz.open(file_path)\<close> either gives a document, of which the script reads
  \<open>page_count\<close>, or raises. PyMuPDF raises for a path that does not exist and for a path
  that is no file; what it makes of the content of a file is the parameter \<open>engine\<close>.
\<close>

datatype fitz_result = Document nat | Raises py_exception

definition fitz_open :: "(bytes \<Rightarrow> fitz_result) \<Rightarrow> world \<Rightarrow> pystr \<Rightarrow> fitz_result" where
  "fitz_open engine w file_path =
     (case files w file_path of
        None \<Rightarrow> Raises FileNotFoundError
      | Some Directory \<Rightarrow> Raises RuntimeError
      | Some (File b) \<Rightarrow> engine b)"

text \<open>The body of the \<open>try\<close> block: the \<open>with\<close> statement and the page count test.\<close>

definition validate_body :: "(bytes \<Rightarrow> fitz_result) \<Rightarrow> world \<Rightarrow> pystr \<Rightarrow> py_exception + bool" where
  "validate_body engine w file_path =
     (case fitz_open engine w file_path of
        Raises e \<Rightarrow> Inl e
      | Document page_count \<Rightarrow> if page_count = 0 then Inr False else Inr True)"

text \<open>The three \<open>except\<close> clauses, in the order of the source; each returns \<open>False\<close>.\<close>

definition validate_pdf_file :: "(bytes \<Rightarrow> fitz_result) \<Rightarrow> world \<Rightarrow> pystr \<Rightarrow> bool" where
  "validate_pdf_file engine w file_path =
     (case validate_body engine w file_path of
        Inr valid \<Rightarrow> valid
      | Inl RuntimeError \<Rightarrow> False
      | Inl FileNotFoundError \<Rightarrow> False
      | Inl unexpected_error \<Rightarrow> False)"

subsection \<open>remove\_system\_file and process\_pdf\_file\<close>

definition remove_system_file :: "world \<Rightarrow> pystr \<Rightarrow> world \<times> bool" where
  "remove_system_file w system_path =
     (if os_path_exists w system_path then
        (case os_remove w system_path of
           Inr w' \<Rightarrow> (w', True)
         | Inl PermissionError \<Rightarrow> (w, False)
         | Inl error \<Rightarrow> (w, False))
      else (w, False))"

definition process_pdf_file :: "(bytes \<Rightarrow> fitz_result) \<Rightarrow> world \<Rightarrow> pystr \<Rightarrow> world" where
  "process_pdf_file engine w file_path =
     (if \<not> validate_pdf_file engine w file_path
      then fst (remove_system_file w file_path)
      else w)"

subsection \<open>The worker pool of main\<close>

text \<open>
  \<open>os.cpu_count()\<close> returns a positive integer or \<open>None\<close>. \<open>x or 4\<close> is \<open>4\<close> when
  \<open>x\<close> is \<open>None\<close> or \<open>0\<close>, and \<open>x\<close> otherwise.
\<close>

definition MAX_WORKERS :: "nat option \<Rightarrow> nat" where
  "MAX_WORKERS cpu_count =
     (case cpu_count of
        None \<Rightarrow> 4
      | Some n \<Rightarrow> if n = 0 then 4 else n)"

text \<open>
  \<open>executor.map(process_pdf_file, pdf_file_paths)\<close> inside the \<open>with\<close> block runs the
  worker once on every path and waits for all of them. The workers share nothing but
  the file system and each touches only its own path, so the pool is modelled by the
  workers running one after the other in the order of the list.
\<close>

definition executor_map :: "(bytes \<Rightarrow> fitz_result) \<Rightarrow> world \<Rightarrow> pystr list \<Rightarrow> world" where
  "executor_map engine w pdf_file_paths = foldl (process_pdf_file engine) w pdf_file_paths"

section \<open>main.py\<close>

subsection \<open>extract\_pdf\_document\_ids\<close>

text \<open>
  What \<open>json.loads\<close> returns: \<open>None\<close>, a \<open>bool\<close>, an \<open>int\<close>, a \<open>float\<close>, a
  \<open>str\<close>, a \<open>list\<close> or a \<open>dict\<close> with string keys (kept in insertion order, each
  key once). Of a \<open>float\<close> the function only asks whether it is zero; \<open>nan\<close> and the
  infinities behave there like any other number that is not zero.
\<close>

datatype json =
    JNull
  | JBool bool
  | JInt int
  | JFloat real
  | JStr pystr
  | JList "json list"
  | JDict "(pystr \<times> json) list"

text \<open>The truth value of an object in a condition.\<close>

fun truthy :: "json \<Rightarrow> bool" where
  "truthy JNull = False"
| "truthy (JBool b) = b"
| "truthy (JInt i) = (i \<noteq> 0)"
| "truthy (JFloat x) = (x \<noteq> 0)"
| "truthy (JStr s) = (s \<noteq> [])"
| "truthy (JList xs) = (xs \<noteq> [])"
| "truthy (JDict kvs) = (kvs \<noteq> [])"

text \<open>\<open>len(x)\<close>: \<open>None\<close>, booleans and numbers have no length.\<close>

fun py_len :: "json \<Rightarrow> py_exception + nat" where
  "py_len (JStr s) = Inr (length s)"
| "py_len (JList xs) = Inr (length xs)"
| "py_len (JDict kvs) = Inr (length kvs)"
| "py_len v = Inl TypeError"

text \<open>
  \<open>x[0]\<close>: the first character of a string as a string, the first element of a list;
  a \<open>dict\<close> from JSON has no key \<open>0\<close>, and the other objects cannot be subscripted.
\<close>

fun py_item0 :: "json \<Rightarrow> py_exception + json" where
  "py_item0 (JStr s) = (case s of [] \<Rightarrow> Inl IndexError | c # cs \<Rightarrow> Inr (JStr [c]))"
| "py_item0 (JList xs) = (case xs of [] \<Rightarrow> Inl IndexError | x # ys \<Rightarrow> Inr x)"
| "py_item0 (JDict kvs) = Inl KeyError"
| "py_item0 v = Inl TypeError"

text \<open>\<open>x.get(key, dflt)\<close>: only a \<open>dict\<close> has the method.\<close>

fun py_get :: "json \<Rightarrow> pystr \<Rightarrow> json \<Rightarrow> py_exception + json" where
  "py_get (JDict kvs) key dflt = Inr (case map_of kvs key of None \<Rightarrow> dflt | Some v \<Rightarrow> v)"
| "py_get v key dflt = Inl AttributeError"

text \<open>
  \<open>for data_row in x\<close>: a list gives its elements, a string its characters, a \<open>dict\<close>
  its keys; nothing else can be iterated.
\<close>

fun py_iter :: "json \<Rightarrow> py_exception + json list" where
  "py_iter (JList xs) = Inr xs"
| "py_iter (JStr s) = Inr (map (\<lambda>c. JStr [c]) s)"
| "py_iter (JDict kvs) = Inr (map (\<lambda>kv. JStr (fst kv)) kvs)"
| "py_iter v = Inl TypeError"

text \<open>
  The \<open>for\<close> loop over \<open>record_data\<close>, with the list built so far. Only a \<open>str\<close> has
  \<open>endswith\<close>, so only strings are ever appended.
\<close>

fun rows_loop :: "json list \<Rightarrow> pystr list \<Rightarrow> py_exception + pystr list" where
  "rows_loop [] pdf_document_id_list = Inr pdf_document_id_list"
| "rows_loop (data_row # rest) pdf_document_id_list =
     (if \<not> truthy data_row then rows_loop rest pdf_document_id_list
      else case py_len data_row of
        Inl e \<Rightarrow> Inl e
      | Inr n \<Rightarrow>
          if \<not> 0 < n then rows_loop rest pdf_document_id_list
          else case py_item0 data_row of
            Inl e \<Rightarrow> Inl e
          | Inr (JStr document_id) \<Rightarrow>
              if endswith document_id (str ''_PDF'')
              then rows_loop rest (pdf_document_id_list @ [document_id])
              else rows_loop rest pdf_document_id_list
          | Inr document_id \<Rightarrow> Inl AttributeError)"

text \<open>
  \<open>json.loads\<close> is a parameter: it gives the parsed object, or \<open>None\<close> where it raises
  \<open>JSONDecodeError\<close>, the one exception the function catches.
\<close>

definition extract_pdf_document_ids :: "(pystr \<Rightarrow> json option) \<Rightarrow> pystr \<Rightarrow> py_exception + pystr list" where
  "extract_pdf_document_ids json_loads raw_json_input =
     (case json_loads raw_json_input of
        None \<Rightarrow> Inr []
      | Some api_response \<Rightarrow>
          (case py_get api_response (str ''data'') (JDict []) of
             Inl e \<Rightarrow> Inl e
           | Inr data \<Rightarrow>
               (case py_get data (str ''Data'') (JList []) of
                  Inl e \<Rightarrow> Inl e
                | Inr record_data \<Rightarrow>
                    (case py_iter record_data of
                       Inl e \<Rightarrow> Inl e
                     | Inr rows \<Rightarrow> rows_loop rows []))))"

subsection \<open>url\_to\_filename\<close>

text \<open>The code points that \<open>str.strip()\<close> removes (those with \<open>str.isspace\<close>).\<close>

definition isspace :: "nat \<Rightarrow> bool" where
  "isspace c \<longleftrightarrow>
     (9 \<le> c \<and> c \<le> 13) \<or> (28 \<le> c \<and> c \<le> 32) \<or> c = 133 \<or> c = 160 \<or> c = 5760
     \<or> (8192 \<le> c \<and> c \<le> 8202) \<or> c = 8232 \<or> c = 8233 \<or> c = 8239 \<or> c = 8287
     \<or> c = 12288"

definition py_strip :: "pystr \<Rightarrow> pystr" where
  "py_strip s = rev (dropWhile isspace (rev (dropWhile isspace s)))"

text \<open>
  \<open>str.lower()\<close> on the letters A to Z. The script only tests the lowered text for
  \<open>.pdf\<close> at its end and for \<open>access denied\<close> inside it, and no code point beyond
  ASCII lowers to text that can take part in either: the only ASCII letters that other
  code points lower to are \<open>k\<close> (U+212A) and \<open>i\<close> followed by U+0307 (U+0130).
\<close>

definition lower_char :: "nat \<Rightarrow> nat" where
  "lower_char c = (if 65 \<le> c \<and> c \<le> 90 then c + 32 else c)"

definition py_lower :: "pystr \<Rightarrow> pystr" where
  "py_lower s = map lower_char s"

text \<open>\<open>sub in s\<close> for strings.\<close>

fun py_in :: "pystr \<Rightarrow> pystr \<Rightarrow> bool" where
  "py_in sub [] = (sub = [])"
| "py_in sub (c # cs) = (startswith (c # cs) sub \<or> py_in sub cs)"

text \<open>
  The class \<open>\w\<close> of a \<open>str\<close> pattern: the ASCII letters, digits and the underscore,
  and beyond ASCII whatever Unicode calls alphanumeric, which is the parameter
  \<open>uni_alnum\<close>. \<open>unsafe\<close> is the class \<open>[^\w\.\-]\<close>.
\<close>

definition is_word :: "(nat \<Rightarrow> bool) \<Rightarrow> nat \<Rightarrow> bool" where
  "is_word uni_alnum c =
     (if c < 128
      then (48 \<le> c \<and> c \<le> 57) \<or> (65 \<le> c \<and> c \<le> 90) \<or> (97 \<le> c \<and> c \<le> 122) \<or> c = 95
      else uni_alnum c)"

definition unsafe :: "(nat \<Rightarrow> bool) \<Rightarrow> nat \<Rightarrow> bool" where
  "unsafe uni_alnum c = (\<not> (is_word uni_alnum c \<or> c = 46 \<or> c = 45))"

text \<open>
  \<open>re.sub(r"[^\w\.\-]+", "_", filename)\<close>: the pattern matches a longest run of unsafe
  characters, and each match is replaced by one underscore.
\<close>

function re_sub_unsafe :: "(nat \<Rightarrow> bool) \<Rightarrow> pystr \<Rightarrow> pystr" where
  "re_sub_unsafe uni_alnum [] = []"
| "re_sub_unsafe uni_alnum (c # cs) =
     (if unsafe uni_alnum c
      then 95 # re_sub_unsafe uni_alnum (dropWhile (unsafe uni_alnum) cs)
      else c # re_sub_unsafe uni_alnum cs)"
  by pat_completeness auto
termination
  by (relation "measure (\<lambda>(uni_alnum, s). length s)")
    (auto simp: le_imp_less_Suc length_dropWhile_le)

text \<open>
  \<open>re.search(r"content=(.*)", url)\<close> and its group 1: the leftmost \<open>content=\<close>, then
  everything up to the end of the line (\<open>.\<close> does not match a line feed).
\<close>

fun re_search_content :: "pystr \<Rightarrow> pystr option" where
  "re_search_content [] = None"
| "re_search_content (c # cs) =
     (if startswith (c # cs) (str ''content='')
      then Some (takeWhile (\<lambda>x. x \<noteq> 10) (drop (length (str ''content='')) (c # cs)))
      else re_search_content cs)"

text \<open>\<open>s.split("&")[0]\<close>.\<close>

definition split_amp_first :: "pystr \<Rightarrow> pystr" where
  "split_amp_first s = takeWhile (\<lambda>x. x \<noteq> 38) s"

definition url_to_filename :: "(nat \<Rightarrow> bool) \<Rightarrow> pystr \<Rightarrow> pystr" where
  "url_to_filename uni_alnum url =
     (let safe_name =
        (case re_search_content url of
           Some group1 \<Rightarrow>
             (let filename = py_strip (split_amp_first group1)
              in re_sub_unsafe uni_alnum filename)
         | None \<Rightarrow> str ''downloaded_file'')
      in if \<not> endswith (py_lower safe_name) (str ''.pdf'')
         then safe_name @ str ''.pdf''
         else safe_name)"

subsection \<open>The file name as the specification words it\<close>

text \<open>
  A second definition, from the sentences of the specification and not from the code:
  the text after \<open>content=\<close> up to the next \<open>&\<close>, stripped, with every character
  outside \<open>[A-Za-z0-9._-]\<close> replaced by an underscore of its own; the placeholder when
  there is no \<open>content=\<close>; then \<open>.pdf\<close> unless the name ends with it in any case.
\<close>

definition spec_safe_char :: "nat \<Rightarrow> bool" where
  "spec_safe_char c \<longleftrightarrow>
     (65 \<le> c \<and> c \<le> 90) \<or> (97 \<le> c \<and> c \<le> 122) \<or> (48 \<le> c \<and> c \<le> 57)
     \<or> c = 46 \<or> c = 95 \<or> c = 45"

fun spec_content_value :: "pystr \<Rightarrow> pystr option" where
  "spec_content_value [] = None"
| "spec_content_value (c # cs) =
     (if startswith (c # cs) (str ''content='')
      then Some (takeWhile (\<lambda>x. x \<noteq> 38) (drop (length (str ''content='')) (c # cs)))
      else spec_content_value cs)"

definition spec_url_to_filename :: "pystr \<Rightarrow> pystr" where
  "spec_url_to_filename url =
     (let name =
        (case spec_content_value url of
           None \<Rightarrow> str ''downloaded_file''
         | Some v \<Rightarrow> map (\<lambda>c. if spec_safe_char c then c else 95) (py_strip v))
      in if endswith (py_lower name) (str ''.pdf'') then name else name @ str ''.pdf'')"

subsection \<open>download\_pdf\<close>

text \<open>
  What \<open>requests.get(pdf_url, ..., stream=True)\<close> does is a parameter of the model: it
  raises a \<open>RequestException\<close> (a read timeout or another one), or it returns a
  response with a status code, perhaps a \<open>Content-Type\<close> header, and a body that arrives
  in chunks. \<open>body_fails\<close> says that reading the body raises a \<open>RequestException\<close> after
  the chunks (a broken connection; \<open>requests\<close> reports a timeout in the middle of a
  body as a \<open>ConnectionError\<close>).
\<close>

datatype request_exception = ReadTimeout | OtherRequestException

record response =
  status_code :: nat
  content_type :: "pystr option"
  body_chunks :: "bytes list"
  body_fails :: bool

datatype get_result = GetRaises request_exception | GetReturns response

text \<open>
  The function returns nothing; what it logs tells the ways it can end apart, and the
  model returns that with the new state of the world.
\<close>

datatype download_outcome =
    Skipped
  | TimedOut
  | RequestFailed
  | AccessDenied
  | InvalidContentType
  | WriteFailed
  | EmptyDownload
  | Downloaded nat

definition pdf_base_url :: pystr where
  "pdf_base_url = str ''https://sds.diversey.com/MyDocuments/DownloadSingleFile?content=''"

text \<open>\<open>os.path.join(a, b)\<close> of \<open>posixpath\<close>.\<close>

definition os_path_join :: "pystr \<Rightarrow> pystr \<Rightarrow> pystr" where
  "os_path_join a b =
     (if startswith b (str ''/'') then b
      else if a = [] \<or> endswith a (str ''/'') then a @ b
      else a @ str ''/'' @ b)"

definition file_exists :: "world \<Rightarrow> pystr \<Rightarrow> bool" where
  "file_exists w path = os_path_isfile w path"

text \<open>
  \<open>open(p, "wb")\<close>: creates the file or empties it; it raises an \<open>OSError\<close> for a
  directory and where the entry may not be created. Writing to the open file is taken
  to succeed.
\<close>

definition open_wb :: "world \<Rightarrow> pystr \<Rightarrow> py_exception + world" where
  "open_wb w p =
     (case files w p of
        Some Directory \<Rightarrow> Inl IsADirectoryError
      | Some (File b) \<Rightarrow> Inr (w\<lparr>files := (files w)(p \<mapsto> File [])\<rparr>)
      | None \<Rightarrow>
          if may_modify w p then Inr (w\<lparr>files := (files w)(p \<mapsto> File [])\<rparr>)
          else Inl PermissionError)"

text \<open>
  The loop over \<open>response.iter_content\<close>, with what the file holds so far and
  \<open>bytes_written\<close>.
\<close>

fun write_chunks :: "bytes list \<Rightarrow> bytes \<Rightarrow> nat \<Rightarrow> bytes \<times> nat" where
  "write_chunks [] written bytes_written = (written, bytes_written)"
| "write_chunks (chunk # rest) written bytes_written =
     (if chunk \<noteq> []
      then write_chunks rest (written @ chunk) (bytes_written + length chunk)
      else write_chunks rest written bytes_written)"

text \<open>
  \<open>response.raise_for_status()\<close> raises \<open>HTTPError\<close>, a \<open>RequestException\<close>, for the
  status codes 400 to 599 and for no other.
\<close>

definition raise_for_status :: "response \<Rightarrow> bool" where
  "raise_for_status r = (400 \<le> status_code r \<and> status_code r < 600)"

text \<open>The \<open>except RequestException\<close> clause tells a read timeout from the rest.\<close>

definition request_failure :: "request_exception \<Rightarrow> download_outcome" where
  "request_failure error = (case error of ReadTimeout \<Rightarrow> TimedOut | OtherRequestException \<Rightarrow> RequestFailed)"

text \<open>The local variable \<open>full_path\<close>.\<close>

definition download_path :: "(nat \<Rightarrow> bool) \<Rightarrow> pystr \<Rightarrow> pystr \<Rightarrow> pystr" where
  "download_path uni_alnum destination_directory pdf_id =
     os_path_join destination_directory (url_to_filename uni_alnum (pdf_base_url @ pdf_id))"

text \<open>
  \<open>decode\<close> stands for \<open>bytes.decode("utf-8", errors="ignore")\<close>. The \<open>except IOError\<close>
  clause catches what \<open>open\<close> and \<open>os.remove\<close> raise. Each \<open>open\<close> and each \<open>os.remove\<close>
  that succeeds is noted in \<open>file_ops\<close>.
\<close>

definition download_pdf ::
  "(nat \<Rightarrow> bool) \<Rightarrow> (bytes \<Rightarrow> pystr) \<Rightarrow> (pystr \<Rightarrow> pystr \<Rightarrow> get_result)
    \<Rightarrow> pystr \<Rightarrow> pystr \<Rightarrow> pystr \<Rightarrow> world \<Rightarrow> world \<times> download_outcome" where
  "download_pdf uni_alnum decode requests_get pdf_id cookie_value destination_directory w =
     (let pdf_url = pdf_base_url @ pdf_id;
          full_path = download_path uni_alnum destination_directory pdf_id
      in if file_exists w full_path then (w, Skipped)
         else
           let w1 = w\<lparr>requests_sent := requests_sent w @ [pdf_url]\<rparr>
           in case requests_get pdf_url cookie_value of
                GetRaises error \<Rightarrow> (w1, request_failure error)
              | GetReturns response \<Rightarrow>
                  if raise_for_status response then (w1, RequestFailed)
                  else
                    let content_type_header =
                          (case content_type response of None \<Rightarrow> [] | Some v \<Rightarrow> v)
                    in if \<not> py_in (str ''application/pdf'') content_type_header then
                         (if body_fails response then (w1, RequestFailed)
                          else
                            let html_content = decode (concat (body_chunks response))
                            in if py_in (str ''Login'') html_content
                                  \<or> py_in (str ''access denied'') (py_lower html_content)
                               then (w1, AccessDenied)
                               else (w1, InvalidContentType))
                       else
                         (case open_wb w1 full_path of
                            Inl e \<Rightarrow> (w1, WriteFailed)
                          | Inr opened \<Rightarrow>
                              let w2 = note_op (Created full_path) opened;
                                  (written, bytes_written) = write_chunks (body_chunks response) [] 0;
                                  w3 = w2\<lparr>files := (files w2)(full_path \<mapsto> File written)\<rparr>
                              in if body_fails response then (w3, RequestFailed)
                                 else if bytes_written = 0 then
                                   (case os_remove w3 full_path of
                                      Inl e \<Rightarrow> (w3, WriteFailed)
                                    | Inr w4 \<Rightarrow> (note_op (Removed full_path) w4, EmptyDownload))
                                 else (w3, Downloaded bytes_written)))"

section \<open>pdf\_validator.py: the directory walk\<close>

text \<open>
  What is below a path: a file, or a directory that can be listed or not, with its
  entries by name. \<open>os.walk\<close> lists a directory, yields its path with the names of
  its subdirectories and of its other entries, and goes on into each subdirectory,
  passing over what it cannot list (with \<open>onerror=None\<close> the errors of
  \<open>scandir\<close> are ignored).
\<close>

datatype dirtree = RegularFile | Dir bool "(pystr \<times> dirtree) list"

fun is_dir :: "dirtree \<Rightarrow> bool" where
  "is_dir RegularFile = False"
| "is_dir (Dir readable entries) = True"

fun os_walk :: "pystr \<Rightarrow> dirtree \<Rightarrow> (pystr \<times> pystr list \<times> pystr list) list" where
  "os_walk walk_top RegularFile = []"
| "os_walk walk_top (Dir readable entries) =
     (if \<not> readable then []
      else (walk_top, map fst (filter (\<lambda>e. is_dir (snd e)) entries),
                 map fst (filter (\<lambda>e. \<not> is_dir (snd e)) entries))
           # concat (map (\<lambda>e. if is_dir (snd e) then os_walk (os_path_join walk_top (fst e)) (snd e) else [])
                       entries))"

text \<open>
  \<open>os.path.normpath\<close> and \<open>os.path.abspath\<close> of \<open>posixpath\<close>: \<open>path.split('/')\<close>, the
  loop over the components, and \<open>'/'.join(comps)\<close>. \<open>os.getcwd()\<close> is the parameter
  \<open>cwd\<close>, \<open>None\<close> where it raises because the working directory is gone.
\<close>

fun split_sep :: "pystr \<Rightarrow> pystr list" where
  "split_sep [] = [[]]"
| "split_sep (c # cs) =
     (if c = 47 then [] # split_sep cs
      else (case split_sep cs of x # xs \<Rightarrow> (c # x) # xs | [] \<Rightarrow> [[c]]))"

fun join_sep :: "pystr list \<Rightarrow> pystr" where
  "join_sep [] = []"
| "join_sep [x] = x"
| "join_sep (x # y # ys) = x @ [47] @ join_sep (y # ys)"

fun norm_comps :: "nat \<Rightarrow> pystr list \<Rightarrow> pystr list \<Rightarrow> pystr list" where
  "norm_comps initial_slashes [] new_comps = new_comps"
| "norm_comps initial_slashes (component # comps) new_comps =
     (if component = [] \<or> component = str ''.'' then norm_comps initial_slashes comps new_comps
      else if component \<noteq> str ''..'' \<or> (initial_slashes = 0 \<and> new_comps = [])
              \<or> (new_comps \<noteq> [] \<and> last new_comps = str ''..'')
      then norm_comps initial_slashes comps (new_comps @ [component])
      else if new_comps \<noteq> [] then norm_comps initial_slashes comps (butlast new_comps)
      else norm_comps initial_slashes comps new_comps)"

definition os_path_normpath :: "pystr \<Rightarrow> pystr" where
  "os_path_normpath path =
     (if path = [] then str ''.''
      else
        let initial_slashes =
              (if startswith path (str ''/'')
               then (if startswith path (str ''//'') \<and> \<not> startswith path (str ''///'') then 2 else 1)
               else 0);
            comps = norm_comps initial_slashes (split_sep path) [];
            path' = replicate initial_slashes 47 @ join_sep comps
        in if path' = [] then str ''.'' else path')"

definition os_path_isabs :: "pystr \<Rightarrow> bool" where
  "os_path_isabs s = startswith s (str ''/'')"

definition os_path_abspath :: "pystr option \<Rightarrow> pystr \<Rightarrow> py_exception + pystr" where
  "os_path_abspath cwd path =
     (if os_path_isabs path then Inr (os_path_normpath path)
      else case cwd of
        None \<Rightarrow> Inl FileNotFoundError
      | Some d \<Rightarrow> Inr (os_path_normpath (os_path_join d path)))"

text \<open>
  The two nested \<open>for\<close> loops, with \<open>matched_files\<close> so far; an exception ends them
  and leaves the list as it is.
\<close>

fun filenames_loop ::
  "pystr option \<Rightarrow> pystr \<Rightarrow> pystr \<Rightarrow> pystr list \<Rightarrow> pystr list \<Rightarrow> pystr list \<times> py_exception option" where
  "filenames_loop cwd file_extension current_root [] matched_files = (matched_files, None)"
| "filenames_loop cwd file_extension current_root (file_name # rest) matched_files =
     (if endswith file_name file_extension then
        (case os_path_abspath cwd (os_path_join current_root file_name) of
           Inl e \<Rightarrow> (matched_files, Some e)
         | Inr full_path \<Rightarrow>
             filenames_loop cwd file_extension current_root rest (matched_files @ [full_path]))
      else filenames_loop cwd file_extension current_root rest matched_files)"

fun walk_loop ::
  "pystr option \<Rightarrow> pystr \<Rightarrow> (pystr \<times> pystr list \<times> pystr list) list \<Rightarrow> pystr list
     \<Rightarrow> pystr list \<times> py_exception option" where
  "walk_loop cwd file_extension [] matched_files = (matched_files, None)"
| "walk_loop cwd file_extension ((current_root, dirs, filenames) # rest) matched_files =
     (case filenames_loop cwd file_extension current_root filenames matched_files of
        (matched, Some e) \<Rightarrow> (matched, Some e)
      | (matched, None) \<Rightarrow> walk_loop cwd file_extension rest matched)"

text \<open>
  \<open>lookup\<close> gives what is at the root path, \<open>None\<close> for a path that does not exist.
  Both \<open>except\<close> clauses print and fall through to the \<open>return\<close>.
\<close>

definition walk_directory_and_extract_given_file_extension ::
  "(pystr \<Rightarrow> dirtree option) \<Rightarrow> pystr option \<Rightarrow> pystr \<Rightarrow> pystr \<Rightarrow> pystr list" where
  "walk_directory_and_extract_given_file_extension lookup cwd root_directory_path file_extension =
     (let file_extension =
            (if \<not> startswith file_extension (str ''.'') then str ''.'' @ file_extension
             else file_extension);
          walked =
            (case lookup root_directory_path of
               None \<Rightarrow> []
             | Some t \<Rightarrow> os_walk root_directory_path t)
      in case walk_loop cwd file_extension walked [] of
           (matched_files, None) \<Rightarrow> matched_files
         | (matched_files, Some FileNotFoundError) \<Rightarrow> matched_files
         | (matched_files, Some error) \<Rightarrow> matched_files)"

text \<open>
  The names a directory can hold: not empty, without a slash, and neither \<open>.\<close> nor
  \<open>..\<close>, which \<open>scandir\<close> never lists.
\<close>

definition valid_name :: "pystr \<Rightarrow> bool" where
  "valid_name n \<longleftrightarrow> n \<noteq> [] \<and> 47 \<notin> set n \<and> n \<noteq> str ''.'' \<and> n \<noteq> str ''..''"

fun valid_names :: "dirtree \<Rightarrow> bool" where
  "valid_names RegularFile = True"
| "valid_names (Dir readable entries) =
     (\<forall>e\<in>set entries. valid_name (fst e) \<and> valid_names (snd e))"

section \<open>Values used in the examples\<close>

text \<open>
  The deletion decision of the worker, as one predicate: the file fails validation, it
  is a regular file, and its entry may be removed.
\<close>

definition removable :: "(bytes \<Rightarrow> fitz_result) \<Rightarrow> world \<Rightarrow> pystr \<Rightarrow> bool" where
  "removable engine w p =
     (\<not> validate_pdf_file engine w p \<and> os_path_isfile w p \<and> may_modify w p)"

text \<open>
  An engine for the examples: it refuses empty content, raises a parsing failure on
  content that starts with 0, opens content that starts with 1 as a document without
  pages, and opens anything else as a document of three pages.
\<close>

definition demo_engine :: "bytes \<Rightarrow> fitz_result" where
  "demo_engine b =
     (case b of
        [] \<Rightarrow> Raises OtherException
      | x # xs \<Rightarrow>
          if x = 0 then Raises RuntimeError
          else if x = 1 then Document 0
          else Document 3)"

definition demo_store :: world where
  "demo_store =
     \<lparr>files = [str ''a.pdf'' \<mapsto> File [2], str ''b.pdf'' \<mapsto> File [0],
               str ''c.pdf'' \<mapsto> File [1], str ''d.pdf'' \<mapsto> File []],
      may_modify = (\<lambda>p. True), requests_sent = [], file_ops = []\<rparr>"

text \<open>Three valid and two invalid files in a directory that may be written.\<close>

definition sweep_store :: world where
  "sweep_store =
     \<lparr>files = [str ''v1.pdf'' \<mapsto> File [2], str ''c1.pdf'' \<mapsto> File [0],
               str ''v2.pdf'' \<mapsto> File [2], str ''c2.pdf'' \<mapsto> File [1],
               str ''v3.pdf'' \<mapsto> File [2]],
      may_modify = (\<lambda>p. True), requests_sent = [], file_ops = []\<rparr>"

definition sweep_paths :: "pystr list" where
  "sweep_paths = [str ''v1.pdf'', str ''c1.pdf'', str ''v2.pdf'', str ''c2.pdf'', str ''v3.pdf'']"

text \<open>A corrupt file in a directory that may not be written.\<close>

definition locked_store :: world where
  "locked_store =
     \<lparr>files = [str ''c1.pdf'' \<mapsto> File [0]],
      may_modify = (\<lambda>p. False), requests_sent = [], file_ops = []\<rparr>"

text \<open>Scenario A of the specification, as text and as the object it parses to.\<close>

definition scenario_A_text :: pystr where
  \<open>scenario_A_text = str ''{"data":{"Data":[["ABC_PDF"],["XYZ_DOC"],["DEF_PDF"]]}}''\<close>

definition scenario_A :: json where
  "scenario_A = JDict [(str ''data'', JDict [(str ''Data'',
      JList [JList [JStr (str ''ABC_PDF'')], JList [JStr (str ''XYZ_DOC'')], JList [JStr (str ''DEF_PDF'')]])])]"

text \<open>
  Catalogs whose \<open>data\<close> is a number and null, and one with the same identifier
  twice.
\<close>

definition data_number_text :: pystr where
  \<open>data_number_text = str ''{"data": 5}''\<close>

definition data_number :: json where
  "data_number = JDict [(str ''data'', JInt 5)]"

definition data_null_text :: pystr where
  \<open>data_null_text = str ''{"data": null}''\<close>

definition data_null :: json where
  "data_null = JDict [(str ''data'', JNull)]"

definition repeated_rows :: "pystr list list" where
  "repeated_rows = [[str ''A_PDF'', str ''x''], [], [str ''A_PDF'']]"

text \<open>An empty store, and answers of the server for the examples.\<close>

definition empty_store :: world where
  "empty_store = \<lparr>files = Map.empty, may_modify = (\<lambda>p. True), requests_sent = [], file_ops = []\<rparr>"

definition pdf_response :: "nat \<Rightarrow> bytes list \<Rightarrow> bool \<Rightarrow> get_result" where
  "pdf_response code chunks fails =
     GetReturns \<lparr>status_code = code, content_type = Some (str ''application/pdf''),
                 body_chunks = chunks, body_fails = fails\<rparr>"

definition login_page :: get_result where
  "login_page =
     GetReturns \<lparr>status_code = 200, content_type = Some (str ''text/html''),
                 body_chunks = [[76, 111, 103, 105, 110]], body_fails = False\<rparr>"

definition ascii_decode :: "bytes \<Rightarrow> pystr" where
  "ascii_decode b = map unat (filter (\<lambda>x. x < 128) b)"

text \<open>A directory of downloads with a subdirectory and one that cannot be listed.\<close>

definition pdfs_tree :: dirtree where
  "pdfs_tree = Dir True [(str ''a.pdf'', RegularFile), (str ''B.PDF'', RegularFile),
     (str ''old'', Dir True [(str ''c.pdf'', RegularFile), (str ''notes.txt'', RegularFile)]),
     (str ''locked'', Dir False [(str ''d.pdf'', RegularFile)])]"

definition pdfs_lookup :: "pystr \<Rightarrow> dirtree option" where
  "pdfs_lookup p = (if p = str ''./PDFs'' then Some pdfs_tree else None)"

section \<open>Properties of pdf\_validator.py\<close>

subsection \<open>The size of the worker pool\<close>

text \<open>
  C9, as the specification states it: the pool has max(hardware parallelism, 4) workers.
  The code does not do that: on a machine that reports two processors the pool has two
  workers.
\<close>

theorem MAX_WORKERS_two_processors: "MAX_WORKERS (Some 2) = 2 \<and> MAX_WORKERS (Some 2) \<noteq> max 2 4"
  by (simp add: MAX_WORKERS_def)

text \<open>
  C9, amended: the pool has as many workers as the machine reports processors, and 4
  workers when the machine reports none (\<open>None\<close> or \<open>0\<close>); 4 is a fallback, not a floor.
  The pool is never empty, and it has max(hardware parallelism, 4) workers exactly when
  the machine reports no processors or at least four.
\<close>

theorem MAX_WORKERS_fallback:
  "MAX_WORKERS None = 4 \<and> MAX_WORKERS (Some 0) = 4
   \<and> (0 < n \<longrightarrow> MAX_WORKERS (Some n) = n)
   \<and> 1 \<le> MAX_WORKERS c
   \<and> (MAX_WORKERS (Some n) = max n 4 \<longleftrightarrow> n = 0 \<or> 4 \<le> n)"
  by (auto simp: MAX_WORKERS_def split: option.splits)

theorem MAX_WORKERS_fallback_witness:
  "(0::nat) < 8 \<and> MAX_WORKERS (Some 8) = 8 \<and> MAX_WORKERS (Some 3) = 3
   \<and> MAX_WORKERS (Some 3) \<noteq> max 3 4"
  using MAX_WORKERS_fallback [of 8 None] MAX_WORKERS_fallback [of 3 None] by simp

subsection \<open>validate\_pdf\_file\<close>

lemma validate_pdf_file_iff:
  "validate_pdf_file engine w p \<longleftrightarrow> (\<exists>n. fitz_open engine w p = Document n \<and> n \<noteq> 0)"
  by (auto simp: validate_pdf_file_def validate_body_def split: fitz_result.splits py_exception.splits)

text \<open>
  C5: \<open>validate_pdf_file\<close> is total. It answers \<open>True\<close> exactly when the path is
  an existing file that the engine opens as a document with at least one page. A path
  that does not exist, a document without pages and every exception raised while the
  file is opened (the engine's parsing failure or any other one) give \<open>False\<close>: what the
  \<open>try\<close> block raises never leaves the function.
\<close>

theorem validate_pdf_file_total:
  "(validate_pdf_file engine w p \<longleftrightarrow>
      (\<exists>b n. files w p = Some (File b) \<and> engine b = Document n \<and> 1 \<le> n))
   \<and> (files w p = None \<longrightarrow> \<not> validate_pdf_file engine w p)
   \<and> (fitz_open engine w p = Document 0 \<longrightarrow> \<not> validate_pdf_file engine w p)
   \<and> (\<forall>e. fitz_open engine w p = Raises e \<longrightarrow>
          validate_body engine w p = Inl e \<and> \<not> validate_pdf_file engine w p)"
  by (auto simp: validate_pdf_file_iff fitz_open_def validate_body_def split: option.splits node.splits)

theorem validate_pdf_file_total_witness:
  "validate_pdf_file demo_engine demo_store (str ''a.pdf'')
   \<and> \<not> validate_pdf_file demo_engine demo_store (str ''b.pdf'')
   \<and> \<not> validate_pdf_file demo_engine demo_store (str ''c.pdf'')
   \<and> \<not> validate_pdf_file demo_engine demo_store (str ''d.pdf'')
   \<and> \<not> validate_pdf_file demo_engine demo_store (str ''e.pdf'')"
  using validate_pdf_file_total [of demo_engine demo_store "str ''a.pdf''"]
    validate_pdf_file_total [of demo_engine demo_store "str ''b.pdf''"]
    validate_pdf_file_total [of demo_engine demo_store "str ''c.pdf''"]
    validate_pdf_file_total [of demo_engine demo_store "str ''d.pdf''"]
    validate_pdf_file_total [of demo_engine demo_store "str ''e.pdf''"]
  by (simp add: demo_engine_def demo_store_def str_def fitz_open_def)

subsection \<open>The worker and the sweep\<close>

lemma validate_pdf_file_cong:
  "files w' p = files w p \<Longrightarrow> validate_pdf_file engine w' p = validate_pdf_file engine w p"
  by (simp add: validate_pdf_file_def validate_body_def fitz_open_def)

lemma removable_cong:
  "files w' p = files w p \<Longrightarrow> may_modify w' = may_modify w \<Longrightarrow> removable engine w' p = removable engine w p"
  by (simp add: removable_def validate_pdf_file_def validate_body_def fitz_open_def os_path_isfile_def)

lemma removable_absent: "files w p = None \<Longrightarrow> \<not> removable engine w p"
  by (simp add: removable_def os_path_isfile_def)

lemma remove_system_file_eq:
  "remove_system_file w p =
     (if os_path_isfile w p \<and> may_modify w p then (w\<lparr>files := (files w)(p := None)\<rparr>, True) else (w, False))"
  by (simp add: remove_system_file_def os_remove_def os_path_exists_def
      os_path_isfile_def split: option.splits node.splits)

lemma process_pdf_file_eq:
  "process_pdf_file engine w p =
     (if removable engine w p then w\<lparr>files := (files w)(p := None)\<rparr> else w)"
  by (simp add: removable_def process_pdf_file_def remove_system_file_eq)

lemma may_modify_process: "may_modify (process_pdf_file engine w p) = may_modify w"
  by (simp add: process_pdf_file_eq)

lemma files_process_other: "q \<noteq> p \<Longrightarrow> files (process_pdf_file engine w p) q = files w q"
  by (simp add: process_pdf_file_eq)

lemma files_process_same:
  "files (process_pdf_file engine w p) p = (if removable engine w p then None else files w p)"
  by (simp add: process_pdf_file_eq)

lemma may_modify_executor_map: "may_modify (executor_map engine w ps) = may_modify w"
  unfolding executor_map_def
  by (induction ps arbitrary: w) (simp_all add: may_modify_process)

lemma files_executor_map:
  "files (executor_map engine w ps) q =
     (if q \<in> set ps \<and> removable engine w q then None else files w q)"
  unfolding executor_map_def
proof (induction ps arbitrary: w)
  case Nil
  show ?case by simp
next
  case (Cons p ps)
  define w' where "w' = process_pdf_file engine w p"
  have step: "files (foldl (process_pdf_file engine) w (p # ps)) q =
     (if q \<in> set ps \<and> removable engine w' q then None else files w' q)"
    using Cons.IH [of w'] by (simp add: w'_def)
  show ?case
  proof (cases "q = p")
    case False
    have "files w' q = files w q" using False by (simp add: w'_def files_process_other)
    moreover have "removable engine w' q = removable engine w q"
      using False by (intro removable_cong) (simp_all add: w'_def files_process_other may_modify_process)
    ultimately show ?thesis using step False by simp
  next
    case True
    show ?thesis
    proof (cases "removable engine w p")
      case T: True
      have n: "files w' p = None" using T by (simp add: w'_def files_process_same)
      have "\<not> removable engine w' p" using n by (rule removable_absent)
      then show ?thesis using step True T n by simp
    next
      case F: False
      have "w' = w" using F by (simp add: w'_def process_pdf_file_eq)
      then show ?thesis using step True F by simp
    qed
  qed
qed

text \<open>
  C4, as the specification states it: the worker deletes the file if and only if it is
  not valid. The code does not do that where the removal is refused: a corrupt file in
  a directory that may not be written fails validation and is still there afterwards.
\<close>

theorem process_pdf_file_locked:
  "\<not> validate_pdf_file demo_engine locked_store (str ''c1.pdf'')
   \<and> files (process_pdf_file demo_engine locked_store (str ''c1.pdf'')) (str ''c1.pdf'') = Some (File [0])"
  by (simp add: process_pdf_file_def remove_system_file_def os_remove_def os_path_exists_def
      validate_pdf_file_def validate_body_def fitz_open_def demo_engine_def locked_store_def str_def)

text \<open>
  C4, amended: the worker leaves a valid file, and the whole store, as they are; it
  attempts the removal exactly for a file that fails validation, and the file is gone
  afterwards exactly when it is a regular file whose removal is permitted (a refused
  removal changes nothing). After the sweep over a list of paths, the store has lost
  exactly the listed files that failed validation and could be removed; with every
  removal permitted, a directory of three valid and two corrupt files keeps exactly
  the three valid ones.
\<close>

theorem process_pdf_file_sweep:
  "(validate_pdf_file engine w p \<longrightarrow> process_pdf_file engine w p = w)
   \<and> (\<not> validate_pdf_file engine w p \<and> os_path_isfile w p \<and> may_modify w p \<longrightarrow>
         process_pdf_file engine w p = w\<lparr>files := (files w)(p := None)\<rparr>)
   \<and> (\<not> (os_path_isfile w p \<and> may_modify w p) \<longrightarrow> process_pdf_file engine w p = w)
   \<and> files (executor_map engine w ps) q =
         (if q \<in> set ps \<and> \<not> validate_pdf_file engine w q \<and> os_path_isfile w q \<and> may_modify w q
          then None else files w q)"
  using files_executor_map [of engine w ps q]
  by (simp add: process_pdf_file_eq removable_def)

lemma dom_sweep_store:
  "dom (files sweep_store) = {str ''v1.pdf'', str ''c1.pdf'', str ''v2.pdf'', str ''c2.pdf'', str ''v3.pdf''}"
  by (auto simp: sweep_store_def str_def)

theorem process_pdf_file_sweep_witness:
  "dom (files sweep_store) = {str ''v1.pdf'', str ''c1.pdf'', str ''v2.pdf'', str ''c2.pdf'', str ''v3.pdf''}
   \<and> dom (files (executor_map demo_engine sweep_store sweep_paths))
       = {str ''v1.pdf'', str ''v2.pdf'', str ''v3.pdf''}"
proof -
  let ?res = "executor_map demo_engine sweep_store sweep_paths"
  have v: "validate_pdf_file demo_engine sweep_store (str ''v1.pdf'')"
    "validate_pdf_file demo_engine sweep_store (str ''v2.pdf'')"
    "validate_pdf_file demo_engine sweep_store (str ''v3.pdf'')"
    "\<not> validate_pdf_file demo_engine sweep_store (str ''c1.pdf'')"
    "\<not> validate_pdf_file demo_engine sweep_store (str ''c2.pdf'')"
    by (simp_all add: validate_pdf_file_def validate_body_def fitz_open_def demo_engine_def
        sweep_store_def str_def)
  have i: "os_path_isfile sweep_store (str ''c1.pdf'')" "os_path_isfile sweep_store (str ''c2.pdf'')"
    by (simp_all add: os_path_isfile_def sweep_store_def str_def)
  have m: "may_modify sweep_store q" for q
    by (simp add: sweep_store_def)
  have s: "set sweep_paths = dom (files sweep_store)"
    by (simp add: dom_sweep_store sweep_paths_def)
  have f: "files ?res q = None \<longleftrightarrow> q \<notin> {str ''v1.pdf'', str ''v2.pdf'', str ''v3.pdf''}" for q
  proof (cases "q \<in> dom (files sweep_store)")
    case False
    then have "files ?res q = None"
      using process_pdf_file_sweep [of demo_engine sweep_store q sweep_paths q] by (auto simp: s)
    moreover have "q \<notin> {str ''v1.pdf'', str ''v2.pdf'', str ''v3.pdf''}"
      using False unfolding dom_sweep_store by simp
    ultimately show ?thesis by simp
  next
    case True
    then consider "q = str ''v1.pdf''" | "q = str ''c1.pdf''" | "q = str ''v2.pdf''"
      | "q = str ''c2.pdf''" | "q = str ''v3.pdf''"
      unfolding dom_sweep_store by auto
    then show ?thesis
    proof cases
      case 1
      have "files ?res q = files sweep_store q"
        using process_pdf_file_sweep [of demo_engine sweep_store q sweep_paths q] v 1 by simp
      then show ?thesis using 1 by (simp add: sweep_store_def str_def)
    next
      case 2
      have "files ?res q = None"
        using process_pdf_file_sweep [of demo_engine sweep_store q sweep_paths q] v i m 2 True
        by (simp add: s)
      then show ?thesis using 2 by (simp add: str_def)
    next
      case 3
      have "files ?res q = files sweep_store q"
        using process_pdf_file_sweep [of demo_engine sweep_store q sweep_paths q] v 3 by simp
      then show ?thesis using 3 by (simp add: sweep_store_def str_def)
    next
      case 4
      have "files ?res q = None"
        using process_pdf_file_sweep [of demo_engine sweep_store q sweep_paths q] v i m 4 True
        by (simp add: s)
      then show ?thesis using 4 by (simp add: str_def)
    next
      case 5
      have "files ?res q = files sweep_store q"
        using process_pdf_file_sweep [of demo_engine sweep_store q sweep_paths q] v 5 by simp
      then show ?thesis using 5 by (simp add: sweep_store_def str_def)
    qed
  qed
  have d: "dom (files ?res) = {str ''v1.pdf'', str ''v2.pdf'', str ''v3.pdf''}"
  proof (rule set_eqI)
    fix q
    show "q \<in> dom (files ?res) \<longleftrightarrow> q \<in> {str ''v1.pdf'', str ''v2.pdf'', str ''v3.pdf''}"
      using f [of q] by (simp only: domIff) blast
  qed
  from dom_sweep_store d show ?thesis by (rule conjI)
qed

section \<open>Properties of main.py\<close>

subsection \<open>extract\_pdf\_document\_ids\<close>

lemma rows_loop_strings:
  "rows_loop (map (\<lambda>r. JList (map JStr r)) rows) acc =
     Inr (acc @ filter (\<lambda>d. endswith d (str ''_PDF'')) (map hd (filter (\<lambda>r. r \<noteq> []) rows)))"
proof (induction rows arbitrary: acc)
  case Nil
  show ?case by simp
next
  case (Cons r rows)
  show ?case
  proof (cases r)
    case Nil
    then show ?thesis using Cons.IH [of acc] by simp
  next
    case (Cons f fs)
    then show ?thesis
      using Cons.IH [of acc] Cons.IH [of "acc @ [f]"] by simp
  qed
qed

text \<open>
  C1: when the payload parses to an object whose \<open>data.Data\<close> is a list of rows of
  strings, the function returns the first field of every row that is not empty and
  whose first field ends with \<open>_PDF\<close>, in the order of the rows and with repeats kept.
  Scenario A gives \<open>ABC_PDF\<close> and \<open>DEF_PDF\<close>.
\<close>

theorem extract_pdf_document_ids_rows:
  assumes "json_loads raw = Some (JDict resp)"
    and "map_of resp (str ''data'') = Some (JDict inner)"
    and "map_of inner (str ''Data'') = Some (JList (map (\<lambda>r. JList (map JStr r)) rows))"
  shows "extract_pdf_document_ids json_loads raw =
     Inr (filter (\<lambda>d. endswith d (str ''_PDF'')) (map hd (filter (\<lambda>r. r \<noteq> []) rows)))"
  using assms by (simp add: extract_pdf_document_ids_def rows_loop_strings)

theorem extract_pdf_document_ids_rows_witness:
  "extract_pdf_document_ids (\<lambda>raw. Some scenario_A) scenario_A_text
     = Inr [str ''ABC_PDF'', str ''DEF_PDF'']
   \<and> extract_pdf_document_ids
        (\<lambda>raw. Some (JDict [(str ''data'', JDict [(str ''Data'',
            JList (map (\<lambda>r. JList (map JStr r)) repeated_rows))])])) []
     = Inr [str ''A_PDF'', str ''A_PDF'']"
  using extract_pdf_document_ids_rows [of "\<lambda>raw. Some scenario_A" scenario_A_text
      "[(str ''data'', JDict [(str ''Data'',
      JList [JList [JStr (str ''ABC_PDF'')], JList [JStr (str ''XYZ_DOC'')], JList [JStr (str ''DEF_PDF'')]])])]"
      "[(str ''Data'',
      JList [JList [JStr (str ''ABC_PDF'')], JList [JStr (str ''XYZ_DOC'')], JList [JStr (str ''DEF_PDF'')]])]"
      "[[str ''ABC_PDF''], [str ''XYZ_DOC''], [str ''DEF_PDF'']]"]
    extract_pdf_document_ids_rows [of
      "\<lambda>raw. Some (JDict [(str ''data'', JDict [(str ''Data'',
            JList (map (\<lambda>r. JList (map JStr r)) repeated_rows))])])" "[]"
      "[(str ''data'', JDict [(str ''Data'', JList (map (\<lambda>r. JList (map JStr r)) repeated_rows))])]"
      "[(str ''Data'', JList (map (\<lambda>r. JList (map JStr r)) repeated_rows))]"
      repeated_rows]
  by (simp add: scenario_A_def repeated_rows_def endswith_def str_def)

text \<open>
  C6: the function is to return the empty list for a payload that does not parse and
  for one whose \<open>data.Data\<close> path is absent or malformed. It does so for the payload
  that does not parse, and the line that reads the path is commented as safe; but for
  a payload whose \<open>data\<close> is a number, or null, \<open>.get\<close> is called on that value and
  the function raises \<open>AttributeError\<close>, which nothing catches.
\<close>

theorem extract_pdf_document_ids_data_not_object:
  "extract_pdf_document_ids (\<lambda>raw. Some data_number) data_number_text = Inl AttributeError
   \<and> extract_pdf_document_ids (\<lambda>raw. Some data_number) data_number_text \<noteq> Inr []
   \<and> extract_pdf_document_ids (\<lambda>raw. Some data_null) data_null_text = Inl AttributeError
   \<and> extract_pdf_document_ids (\<lambda>raw. None) (str ''<html>'') = Inr []"
  by (simp add: extract_pdf_document_ids_def data_number_def data_null_def str_def)

subsection \<open>download\_pdf\<close>

lemma write_chunks_eq:
  "write_chunks chunks written n = (written @ concat chunks, n + length (concat chunks))"
  by (induction chunks arbitrary: written n) simp_all

lemma download_pdf_skip:
  "file_exists w (download_path uni_alnum dir pdf_id) \<Longrightarrow>
   download_pdf uni_alnum decode requests_get pdf_id cookie dir w = (w, Skipped)"
  by (simp add: download_pdf_def)

lemma download_path_ABC:
  "download_path (\<lambda>c. False) (str ''PDFs'') (str ''ABC_PDF'') = str ''PDFs/ABC_PDF.pdf''"
  by (simp add: download_path_def pdf_base_url_def os_path_join_def url_to_filename_def str_def
      startswith_def endswith_def unsafe_def is_word_def py_strip_def split_amp_first_def
      py_lower_def lower_char_def isspace_def)

lemma file_exists_files: "files w' = files w \<Longrightarrow> file_exists w' p = file_exists w p"
  by (simp add: file_exists_def os_path_isfile_def)


lemma download_pdf_ABC:
  "\<not> raise_for_status \<lparr>status_code = code, content_type = Some (str ''application/pdf''),
                 body_chunks = [[37, 80]], body_fails = fails\<rparr> \<Longrightarrow>
   download_pdf (\<lambda>c. False) decode (\<lambda>url cookie. pdf_response code [[37, 80]] fails)
       (str ''ABC_PDF'') [] (str ''PDFs'') empty_store =
     (\<lparr>files = [str ''PDFs/ABC_PDF.pdf'' \<mapsto> File [37, 80]], may_modify = (\<lambda>p. True),
        requests_sent = [pdf_base_url @ str ''ABC_PDF''],
        file_ops = [Created (str ''PDFs/ABC_PDF.pdf'')]\<rparr>,
      if fails then RequestFailed else Downloaded 2)"
proof -
  have c: "py_in (str ''application/pdf'') (str ''application/pdf'')"
    by (simp add: str_def startswith_def)
  assume "\<not> raise_for_status \<lparr>status_code = code, content_type = Some (str ''application/pdf''),
                 body_chunks = [[37, 80]], body_fails = fails\<rparr>"
  then show ?thesis
    using c
    by (simp add: download_pdf_def Let_def download_path_ABC file_exists_def os_path_isfile_def
        empty_store_def pdf_response_def open_wb_def write_chunks_eq note_op_def)
qed

text \<open>
  C3: when the destination file of an identifier exists, \<open>download_pdf\<close> returns at
  once: the world is the same afterwards, so no request was sent and no file was
  changed. Hence a second call for the same identifier, with the file there after the
  first, sends no request and leaves the files as they are.
\<close>

theorem download_pdf_skips_existing:
  "(file_exists w (download_path uni_alnum dir pdf_id) \<longrightarrow>
      download_pdf uni_alnum decode requests_get pdf_id cookie dir w = (w, Skipped))
   \<and> (file_exists (fst (download_pdf uni_alnum decode requests_get pdf_id cookie dir w))
         (download_path uni_alnum dir pdf_id) \<longrightarrow>
       (let w1 = fst (download_pdf uni_alnum decode requests_get pdf_id cookie dir w);
            w2 = fst (download_pdf uni_alnum decode requests_get' pdf_id cookie' dir w1)
        in requests_sent w2 = requests_sent w1 \<and> files w2 = files w1 \<and> w2 = w1))"
  by (simp add: download_pdf_skip Let_def)

theorem download_pdf_skips_existing_witness:
  "file_exists
     (fst (download_pdf (\<lambda>c. False) ascii_decode (\<lambda>url cookie. pdf_response 200 [[37, 80]] False)
        (str ''ABC_PDF'') [] (str ''PDFs'') empty_store))
     (download_path (\<lambda>c. False) (str ''PDFs'') (str ''ABC_PDF''))
   \<and> requests_sent
     (fst (download_pdf (\<lambda>c. False) ascii_decode (\<lambda>url cookie. pdf_response 200 [[37, 80]] False)
        (str ''ABC_PDF'') [] (str ''PDFs'')
        (fst (download_pdf (\<lambda>c. False) ascii_decode (\<lambda>url cookie. pdf_response 200 [[37, 80]] False)
           (str ''ABC_PDF'') [] (str ''PDFs'') empty_store))))
     = [pdf_base_url @ str ''ABC_PDF'']"
proof -
  have r: "\<not> raise_for_status \<lparr>status_code = 200, content_type = Some (str ''application/pdf''),
                 body_chunks = [[37, 80]], body_fails = False\<rparr>"
    by (simp add: raise_for_status_def)
  note first = download_pdf_ABC [OF r, of ascii_decode]
  have e: "file_exists
     (fst (download_pdf (\<lambda>c. False) ascii_decode (\<lambda>url cookie. pdf_response 200 [[37, 80]] False)
        (str ''ABC_PDF'') [] (str ''PDFs'') empty_store))
     (download_path (\<lambda>c. False) (str ''PDFs'') (str ''ABC_PDF''))"
    unfolding first by (simp add: download_path_ABC file_exists_def os_path_isfile_def)
  show ?thesis
    using e download_pdf_skips_existing [of empty_store "\<lambda>c. False" "str ''PDFs''" "str ''ABC_PDF''"
        ascii_decode "\<lambda>url cookie. pdf_response 200 [[37, 80]] False" "[]"
        "\<lambda>url cookie. pdf_response 200 [[37, 80]] False" "[]"]
    by (simp add: first Let_def)
qed



text \<open>
  C7, as the specification states it: no failed download leaves a file. The code does
  not do that in two cases. A status outside 200 to 299 that is not an error status
  (here 300) with a PDF body is written to disk like a success; and a body that breaks
  off after its first chunk leaves the chunk in the file, with the failure logged.
\<close>

theorem download_pdf_failed_leaves_file:
  "file_exists
     (fst (download_pdf (\<lambda>c. False) ascii_decode (\<lambda>url cookie. pdf_response 300 [[37, 80]] False)
        (str ''ABC_PDF'') [] (str ''PDFs'') empty_store))
     (download_path (\<lambda>c. False) (str ''PDFs'') (str ''ABC_PDF''))
   \<and> snd (download_pdf (\<lambda>c. False) ascii_decode (\<lambda>url cookie. pdf_response 200 [[37, 80]] True)
        (str ''ABC_PDF'') [] (str ''PDFs'') empty_store) = RequestFailed
   \<and> files
     (fst (download_pdf (\<lambda>c. False) ascii_decode (\<lambda>url cookie. pdf_response 200 [[37, 80]] True)
        (str ''ABC_PDF'') [] (str ''PDFs'') empty_store))
     (download_path (\<lambda>c. False) (str ''PDFs'') (str ''ABC_PDF'')) = Some (File [37, 80])"
proof -
  have a: "\<not> raise_for_status \<lparr>status_code = 300, content_type = Some (str ''application/pdf''),
                 body_chunks = [[37, 80]], body_fails = False\<rparr>"
    by (simp add: raise_for_status_def)
  have b: "\<not> raise_for_status \<lparr>status_code = 200, content_type = Some (str ''application/pdf''),
                 body_chunks = [[37, 80]], body_fails = True\<rparr>"
    by (simp add: raise_for_status_def)
  show ?thesis
    unfolding download_pdf_ABC [OF a] download_pdf_ABC [OF b]
    by (simp add: download_path_ABC file_exists_def os_path_isfile_def)
qed

lemma download_pdf_no_write:
  assumes "\<not> file_exists w (download_path uni_alnum dir pdf_id)"
    and "(\<exists>error. requests_get (pdf_base_url @ pdf_id) cookie = GetRaises error)
       \<or> (\<exists>r. requests_get (pdf_base_url @ pdf_id) cookie = GetReturns r
              \<and> (raise_for_status r
                   \<or> \<not> py_in (str ''application/pdf'')
                          (case content_type r of None \<Rightarrow> [] | Some v \<Rightarrow> v)))"
  shows "fst (download_pdf uni_alnum decode requests_get pdf_id cookie dir w)
       = w\<lparr>requests_sent := requests_sent w @ [pdf_base_url @ pdf_id]\<rparr>
    \<and> snd (download_pdf uni_alnum decode requests_get pdf_id cookie dir w)
       \<in> {TimedOut, RequestFailed, AccessDenied, InvalidContentType}"
proof -
  let ?ct = "\<lambda>r. py_in (str ''application/pdf'')
      (case content_type r of None \<Rightarrow> [] | Some v \<Rightarrow> v)"
  from assms(2) consider
      (raised) error where "requests_get (pdf_base_url @ pdf_id) cookie = GetRaises error"
    | (status) r where "requests_get (pdf_base_url @ pdf_id) cookie = GetReturns r"
        "raise_for_status r"
    | (no_pdf) r where "requests_get (pdf_base_url @ pdf_id) cookie = GetReturns r"
        "\<not> raise_for_status r" "\<not> ?ct r"
    by blast
  then show ?thesis
  proof cases
    case raised
    then show ?thesis using assms(1)
      by (cases error) (simp_all add: download_pdf_def Let_def request_failure_def)
  next
    case status
    then show ?thesis using assms(1)
      by (simp add: download_pdf_def Let_def)
  next
    case no_pdf
    then show ?thesis using assms(1)
      by (simp add: download_pdf_def Let_def)
  qed
qed

text \<open>
  C7, amended: a download that fails before the body is written (the request raises,
  the status is between 400 and 599, or the \<open>Content-Type\<close> does not contain
  \<open>application/pdf\<close>, be it a login page or something else) leaves every file as it
  was; the destination did not exist before the attempt and does not exist after it.
\<close>

theorem download_pdf_failure_writes_nothing:
  assumes "\<not> file_exists w (download_path uni_alnum dir pdf_id)"
    and "(\<exists>error. requests_get (pdf_base_url @ pdf_id) cookie = GetRaises error)
       \<or> (\<exists>r. requests_get (pdf_base_url @ pdf_id) cookie = GetReturns r
              \<and> (raise_for_status r
                   \<or> \<not> py_in (str ''application/pdf'')
                          (case content_type r of None \<Rightarrow> [] | Some v \<Rightarrow> v)))"
  shows "files (fst (download_pdf uni_alnum decode requests_get pdf_id cookie dir w)) = files w
    \<and> \<not> file_exists (fst (download_pdf uni_alnum decode requests_get pdf_id cookie dir w))
          (download_path uni_alnum dir pdf_id)
    \<and> snd (download_pdf uni_alnum decode requests_get pdf_id cookie dir w)
       \<in> {TimedOut, RequestFailed, AccessDenied, InvalidContentType}"
proof -
  note n = download_pdf_no_write [of w uni_alnum dir pdf_id requests_get cookie decode,
      OF assms(1) assms(2)]
  have f: "files (fst (download_pdf uni_alnum decode requests_get pdf_id cookie dir w)) = files w"
    using n by simp
  have "\<not> file_exists (fst (download_pdf uni_alnum decode requests_get pdf_id cookie dir w))
          (download_path uni_alnum dir pdf_id)"
    using assms(1) f by (simp add: file_exists_def os_path_isfile_def)
  then show ?thesis using f n by simp
qed

theorem download_pdf_failure_writes_nothing_witness:
  "download_pdf (\<lambda>c. False) ascii_decode (\<lambda>url cookie. login_page)
        (str ''ABC_PDF'') [] (str ''PDFs'') empty_store
     = (empty_store\<lparr>requests_sent := [pdf_base_url @ str ''ABC_PDF'']\<rparr>, AccessDenied)
   \<and> files (fst (download_pdf (\<lambda>c. False) ascii_decode (\<lambda>url cookie. pdf_response 404 [[37, 80]] False)
        (str ''ABC_PDF'') [] (str ''PDFs'') empty_store)) = Map.empty
   \<and> files (fst (download_pdf (\<lambda>c. False) ascii_decode (\<lambda>url cookie. GetRaises ReadTimeout)
        (str ''ABC_PDF'') [] (str ''PDFs'') empty_store)) = Map.empty"
proof -
  have e: "\<not> file_exists empty_store (download_path (\<lambda>c. False) (str ''PDFs'') (str ''ABC_PDF''))"
    by (simp add: file_exists_def os_path_isfile_def empty_store_def)
  have 1: "download_pdf (\<lambda>c. False) ascii_decode (\<lambda>url cookie. login_page)
        (str ''ABC_PDF'') [] (str ''PDFs'') empty_store
     = (empty_store\<lparr>requests_sent := [pdf_base_url @ str ''ABC_PDF'']\<rparr>, AccessDenied)"
    using e
    by (simp add: download_pdf_def Let_def login_page_def raise_for_status_def ascii_decode_def
        empty_store_def str_def startswith_def)
  have 2: "files (fst (download_pdf (\<lambda>c. False) ascii_decode (\<lambda>url cookie. pdf_response 404 [[37, 80]] False)
        (str ''ABC_PDF'') [] (str ''PDFs'') empty_store)) = files empty_store"
    using download_pdf_failure_writes_nothing [of empty_store "\<lambda>c. False" "str ''PDFs''" "str ''ABC_PDF''"
        "\<lambda>url cookie. pdf_response 404 [[37, 80]] False" "[]" ascii_decode] e
    by (simp add: pdf_response_def raise_for_status_def)
  have 3: "files (fst (download_pdf (\<lambda>c. False) ascii_decode (\<lambda>url cookie. GetRaises ReadTimeout)
        (str ''ABC_PDF'') [] (str ''PDFs'') empty_store)) = files empty_store"
    using download_pdf_failure_writes_nothing [of empty_store "\<lambda>c. False" "str ''PDFs''" "str ''ABC_PDF''"
        "\<lambda>url cookie. GetRaises ReadTimeout" "[]" ascii_decode] e
    by simp
  show ?thesis using 1 2 3 by (simp add: empty_store_def)
qed

subsection \<open>url\_to\_filename\<close>

lemma content_split: "str ''content='' = str ''content'' @ [61]"
  by (simp add: str_def)

lemma length_content: "length (str ''content='') = 8" "length (str ''content'') = 7"
  by (simp_all add: str_def)

lemma re_search_content_unfold:
  "s \<noteq> [] \<Longrightarrow> re_search_content s =
     (if startswith s (str ''content='')
      then Some (takeWhile (\<lambda>x. x \<noteq> 10) (drop 8 s))
      else re_search_content (tl s))"
  by (cases s) (simp_all add: length_content)

lemma py_in_unfold:
  "s \<noteq> [] \<Longrightarrow> py_in sub s = (startswith s sub \<or> py_in sub (tl s))"
  by (cases s) simp_all

lemma re_search_content_none:
  "\<not> py_in (str ''content='') url \<Longrightarrow> re_search_content url = None"
  by (induction url) simp_all

lemma re_search_content_some:
  "\<not> py_in (str ''content='') (pre @ str ''content'') \<Longrightarrow>
   re_search_content (pre @ str ''content='' @ tail) = Some (takeWhile (\<lambda>x. x \<noteq> 10) tail)"
proof (induction pre)
  case Nil
  have "str ''content='' @ tail \<noteq> []" by (simp add: str_def)
  moreover have "startswith (str ''content='' @ tail) (str ''content='')"
    by (simp add: startswith_def)
  moreover have "drop 8 (str ''content='' @ tail) = tail"
    by (simp add: length_content)
  ultimately show ?case
    using re_search_content_unfold [of "str ''content='' @ tail"] by simp
next
  case (Cons c pre)
  have n: "\<not> startswith ((c # pre) @ str ''content'') (str ''content='')"
    "\<not> py_in (str ''content='') (pre @ str ''content'')"
    using Cons.prems by simp_all
  have "take 8 ((c # pre) @ str ''content='' @ tail) = take 8 ((c # pre) @ str ''content'')"
    by (simp add: content_split length_content)
  then have "\<not> startswith ((c # pre) @ str ''content='' @ tail) (str ''content='')"
    using n(1) by (simp add: startswith_def length_content)
  then have "re_search_content ((c # pre) @ str ''content='' @ tail)
      = re_search_content (pre @ str ''content='' @ tail)"
    by simp
  then show ?case using Cons.IH [OF n(2)] by simp
qed

lemma value_segment:
  assumes "38 \<notin> set v" "10 \<notin> set v" "rest = [] \<or> hd rest = 38 \<or> hd rest = 10"
  shows "split_amp_first (takeWhile (\<lambda>x. x \<noteq> 10) (v @ rest)) = v"
proof -
  have a: "takeWhile (\<lambda>x. x \<noteq> 10) (v @ rest) = v @ takeWhile (\<lambda>x. x \<noteq> 10) rest"
    using assms(2) by (intro takeWhile_append2) auto
  have b: "takeWhile (\<lambda>x. x \<noteq> (38::nat)) (takeWhile (\<lambda>x. x \<noteq> 10) rest) = []"
    using assms(3) by (cases rest) auto
  have c: "takeWhile (\<lambda>x. x \<noteq> 38) (v @ takeWhile (\<lambda>x. x \<noteq> 10) rest) =
      v @ takeWhile (\<lambda>x. x \<noteq> 38) (takeWhile (\<lambda>x. x \<noteq> 10) rest)"
    using assms(1) by (intro takeWhile_append2) auto
  show ?thesis unfolding split_amp_first_def a c b by simp
qed

lemma re_sub_unsafe_safe:
  "\<forall>c\<in>set s. \<not> unsafe uni_alnum c \<Longrightarrow> re_sub_unsafe uni_alnum s = s"
  by (induction s) simp_all

lemma re_sub_unsafe_run:
  assumes "u \<noteq> []" "\<forall>c\<in>set u. unsafe uni_alnum c" "b = [] \<or> \<not> unsafe uni_alnum (hd b)"
  shows "re_sub_unsafe uni_alnum (u @ b) = 95 # re_sub_unsafe uni_alnum b"
proof -
  obtain c u' where u: "u = c # u'" using assms(1) by (cases u) auto
  have "dropWhile (unsafe uni_alnum) (u' @ b) = dropWhile (unsafe uni_alnum) b"
    using assms(2) u by (intro dropWhile_append2) auto
  moreover have "dropWhile (unsafe uni_alnum) b = b"
    using assms(3) by (cases b) auto
  ultimately show ?thesis using assms(2) u by simp
qed

lemma re_sub_unsafe_append:
  "a = [] \<or> \<not> unsafe uni_alnum (last a) \<Longrightarrow>
   re_sub_unsafe uni_alnum (a @ s) = re_sub_unsafe uni_alnum a @ re_sub_unsafe uni_alnum s"
proof (induction uni_alnum a rule: re_sub_unsafe.induct)
  case (1 uni_alnum)
  show ?case by simp
next
  case (2 uni_alnum c cs)
  show ?case
  proof (cases "unsafe uni_alnum c")
    case False
    have "cs = [] \<or> \<not> unsafe uni_alnum (last cs)" using "2.prems" by (cases cs) auto
    then show ?thesis using False "2.IH"(2) by simp
  next
    case True
    let ?d = "dropWhile (unsafe uni_alnum) cs"
    have l: "\<not> unsafe uni_alnum (last (c # cs))" using "2.prems" by simp
    then have ne: "cs \<noteq> []" using True by auto
    then have lc: "\<not> unsafe uni_alnum (last cs)" using l by simp
    have ex: "\<exists>x\<in>set cs. \<not> unsafe uni_alnum x" using ne lc last_in_set by blast
    then obtain x where "x \<in> set cs" "\<not> unsafe uni_alnum x" by blast
    then have d: "dropWhile (unsafe uni_alnum) (cs @ s) = ?d @ s"
      by (rule dropWhile_append1)
    have dne: "?d \<noteq> []" using ex by (simp add: dropWhile_eq_Nil_conv)
    have "last ?d = last cs"
      using dne by (metis last_appendR takeWhile_dropWhile_id)
    then have "?d = [] \<or> \<not> unsafe uni_alnum (last ?d)" using lc by simp
    then have "re_sub_unsafe uni_alnum (?d @ s) = re_sub_unsafe uni_alnum ?d @ re_sub_unsafe uni_alnum s"
      using "2.IH"(1) [OF True] by simp
    then show ?thesis using True d by simp
  qed
qed

lemma re_sub_unsafe_isolated:
  "(\<forall>i. Suc i < length s \<longrightarrow> \<not> (unsafe uni_alnum (s ! i) \<and> unsafe uni_alnum (s ! Suc i))) \<Longrightarrow>
   re_sub_unsafe uni_alnum s = map (\<lambda>c. if unsafe uni_alnum c then 95 else c) s"
proof (induction s)
  case Nil
  show ?case by simp
next
  case (Cons c cs)
  have tl: "\<forall>i. Suc i < length cs \<longrightarrow> \<not> (unsafe uni_alnum (cs ! i) \<and> unsafe uni_alnum (cs ! Suc i))"
  proof (intro allI impI)
    fix i assume "Suc i < length cs"
    then have "Suc (Suc i) < length (c # cs)" by simp
    then have "\<not> (unsafe uni_alnum ((c # cs) ! Suc i) \<and> unsafe uni_alnum ((c # cs) ! Suc (Suc i)))"
      using Cons.prems by blast
    then show "\<not> (unsafe uni_alnum (cs ! i) \<and> unsafe uni_alnum (cs ! Suc i))" by simp
  qed
  note ih = Cons.IH [OF tl]
  show ?case
  proof (cases "unsafe uni_alnum c")
    case False
    then show ?thesis using ih by simp
  next
    case True
    have "dropWhile (unsafe uni_alnum) cs = cs"
    proof (cases cs)
      case Nil
      then show ?thesis by simp
    next
      case (Cons d ds)
      then have "Suc 0 < length (c # cs)" by simp
      then have "\<not> (unsafe uni_alnum ((c # cs) ! 0) \<and> unsafe uni_alnum ((c # cs) ! Suc 0))"
        using Cons.prems by blast
      then show ?thesis using True Cons by simp
    qed
    then show ?thesis using True ih by simp
  qed
qed

lemma unsafe_underscore: "\<not> unsafe uni_alnum 95"
  by (simp add: unsafe_def is_word_def)

lemma re_sub_unsafe_set: "\<forall>c\<in>set (re_sub_unsafe uni_alnum s). \<not> unsafe uni_alnum c"
proof (induction uni_alnum s rule: re_sub_unsafe.induct)
  case (1 uni_alnum)
  show ?case by simp
next
  case (2 uni_alnum c cs)
  show ?case
  proof (cases "unsafe uni_alnum c")
    case True
    then show ?thesis using "2.IH"(1) [OF True] by (simp add: unsafe_underscore)
  next
    case False
    then show ?thesis using "2.IH"(2) [OF False] by simp
  qed
qed

lemma lower_char_cases:
  "lower_char x = 46 \<longleftrightarrow> x = 46"
  "lower_char x = 112 \<longleftrightarrow> x = 112 \<or> x = 80"
  "lower_char x = 100 \<longleftrightarrow> x = 100 \<or> x = 68"
  "lower_char x = 102 \<longleftrightarrow> x = 102 \<or> x = 70"
  by (auto simp: lower_char_def)

lemma endswith_pdf:
  "endswith (py_lower n) (str ''.pdf'') \<longleftrightarrow>
     (\<exists>p a b c. n = p @ [46, a, b, c] \<and> (a = 112 \<or> a = 80) \<and> (b = 100 \<or> b = 68) \<and> (c = 102 \<or> c = 70))"
proof
  assume e: "endswith (py_lower n) (str ''.pdf'')"
  have len: "length (str ''.pdf'') = 4" and p: "str ''.pdf'' = [46, 112, 100, 102]"
    by (simp_all add: str_def)
  from e have "4 \<le> length n \<and> drop (length n - 4) (map lower_char n) = str ''.pdf''"
    unfolding endswith_def py_lower_def len by simp
  then have l: "4 \<le> length n" and d: "map lower_char (drop (length n - 4) n) = [46, 112, 100, 102]"
    by (simp_all add: p drop_map)
  from d obtain x a b c where t: "drop (length n - 4) n = [x, a, b, c]"
    and "lower_char x = 46" "lower_char a = 112" "lower_char b = 100" "lower_char c = 102"
    by (auto simp: map_eq_Cons_conv)
  then have "x = 46" "a = 112 \<or> a = 80" "b = 100 \<or> b = 68" "c = 102 \<or> c = 70"
    by (simp_all add: lower_char_cases)
  moreover have "n = take (length n - 4) n @ [x, a, b, c]"
    using t append_take_drop_id [of "length n - 4" n] by simp
  ultimately show "\<exists>p a b c. n = p @ [46, a, b, c] \<and> (a = 112 \<or> a = 80) \<and> (b = 100 \<or> b = 68) \<and> (c = 102 \<or> c = 70)"
    by blast
next
  assume "\<exists>p a b c. n = p @ [46, a, b, c] \<and> (a = 112 \<or> a = 80) \<and> (b = 100 \<or> b = 68) \<and> (c = 102 \<or> c = 70)"
  then obtain p a b c where n: "n = p @ [46, a, b, c]"
    and "lower_char a = 112" "lower_char b = 100" "lower_char c = 102"
    by (auto simp: lower_char_cases)
  have len: "length (str ''.pdf'') = 4" and p: "str ''.pdf'' = [46, 112, 100, 102]"
    by (simp_all add: str_def)
  have "lower_char 46 = 46" by (simp add: lower_char_def)
  then have "drop (length n - 4) (map lower_char n) = str ''.pdf''"
    using n \<open>lower_char a = 112\<close> \<open>lower_char b = 100\<close> \<open>lower_char c = 102\<close>
    by (simp add: p)
  moreover have "4 \<le> length n" using n by simp
  ultimately show "endswith (py_lower n) (str ''.pdf'')"
    unfolding endswith_def py_lower_def len by simp
qed

lemma url_to_filename_set: "\<forall>c\<in>set (url_to_filename uni_alnum url). \<not> unsafe uni_alnum c"
proof -
  have p: "\<forall>c\<in>set (str ''.pdf''). \<not> unsafe uni_alnum c"
    by (simp add: str_def unsafe_def is_word_def)
  have d: "\<forall>c\<in>set (str ''downloaded_file''). \<not> unsafe uni_alnum c"
    by (simp add: str_def unsafe_def is_word_def)
  show ?thesis
    using p d re_sub_unsafe_set [of uni_alnum]
    by (auto simp: url_to_filename_def Let_def split: option.splits)
qed

text \<open>
  C2, as the specification states it: every character outside \<open>[A-Za-z0-9._-]\<close> of
  the value up to the next \<open>&\<close> becomes one underscore. The code does not do that: two
  such characters in a row become one underscore together, a letter beyond ASCII (here
  U+00E9) is a word character and stays, and the value ends at a line feed.
\<close>

theorem url_to_filename_not_per_character:
  "url_to_filename (\<lambda>c. False) (pdf_base_url @ str ''a@@b'') = str ''a_b.pdf''
   \<and> spec_url_to_filename (pdf_base_url @ str ''a@@b'') = str ''a__b.pdf''
   \<and> url_to_filename (\<lambda>c. c = 233) (pdf_base_url @ [233]) = [233] @ str ''.pdf''
   \<and> spec_url_to_filename (pdf_base_url @ [233]) = str ''_.pdf''
   \<and> url_to_filename (\<lambda>c. False) (pdf_base_url @ str ''a'' @ [10] @ str ''b'') = str ''a.pdf''
   \<and> spec_url_to_filename (pdf_base_url @ str ''a'' @ [10] @ str ''b'') = str ''a_b.pdf''"
  by (simp add: url_to_filename_def spec_url_to_filename_def spec_safe_char_def pdf_base_url_def
      str_def startswith_def endswith_def unsafe_def is_word_def py_strip_def split_amp_first_def
      py_lower_def lower_char_def isspace_def)

text \<open>
  C2, amended. The name is a function of the URL. Without \<open>content=\<close> in the URL it is
  \<open>downloaded_file.pdf\<close>. Otherwise the value is the text after the first \<open>content=\<close>
  up to the next \<open>&\<close> or line feed, stripped; characters that are word characters
  (Unicode letters and digits, the underscore), periods or hyphens stay, and every
  longest run of other characters becomes one underscore, which is the replacement
  character by character exactly when no two of them are adjacent. \<open>.pdf\<close> is
  appended unless the name ends with a period and the letters p, d, f in either case,
  and such an ending is kept as it is. The result always ends with \<open>.pdf\<close> in some
  case and holds no character outside that class.
\<close>

theorem url_to_filename_runs:
  "(\<not> py_in (str ''content='') url \<longrightarrow>
      url_to_filename uni_alnum url = str ''downloaded_file.pdf'')
   \<and> (\<not> py_in (str ''content='') (pre @ str ''content'') \<and> 38 \<notin> set v \<and> 10 \<notin> set v
        \<and> (rest = [] \<or> hd rest = 38 \<or> hd rest = 10) \<longrightarrow>
      url_to_filename uni_alnum (pre @ str ''content='' @ v @ rest) =
        (let name = re_sub_unsafe uni_alnum (py_strip v)
         in if endswith (py_lower name) (str ''.pdf'') then name else name @ str ''.pdf''))
   \<and> ((\<forall>c\<in>set s. \<not> unsafe uni_alnum c) \<longrightarrow> re_sub_unsafe uni_alnum s = s)
   \<and> (u \<noteq> [] \<and> (\<forall>c\<in>set u. unsafe uni_alnum c) \<and> (a = [] \<or> \<not> unsafe uni_alnum (last a))
        \<and> (b = [] \<or> \<not> unsafe uni_alnum (hd b)) \<longrightarrow>
      re_sub_unsafe uni_alnum (a @ u @ b) = re_sub_unsafe uni_alnum a @ 95 # re_sub_unsafe uni_alnum b)
   \<and> ((\<forall>i. Suc i < length s \<longrightarrow> \<not> (unsafe uni_alnum (s ! i) \<and> unsafe uni_alnum (s ! Suc i))) \<longrightarrow>
      re_sub_unsafe uni_alnum s = map (\<lambda>c. if unsafe uni_alnum c then 95 else c) s)
   \<and> (endswith (py_lower n) (str ''.pdf'') \<longleftrightarrow>
        (\<exists>p x y z. n = p @ [46, x, y, z] \<and> (x = 112 \<or> x = 80) \<and> (y = 100 \<or> y = 68)
           \<and> (z = 102 \<or> z = 70)))
   \<and> endswith (py_lower (url_to_filename uni_alnum url)) (str ''.pdf'')
   \<and> (\<forall>c\<in>set (url_to_filename uni_alnum url). \<not> unsafe uni_alnum c)"
proof -
  have 1: "\<not> py_in (str ''content='') url \<Longrightarrow>
      url_to_filename uni_alnum url = str ''downloaded_file.pdf''"
    by (simp add: url_to_filename_def re_search_content_none)
      (simp add: str_def endswith_def py_lower_def lower_char_def)
  have 2: "url_to_filename uni_alnum (pre @ str ''content='' @ v @ rest) =
        (let name = re_sub_unsafe uni_alnum (py_strip v)
         in if endswith (py_lower name) (str ''.pdf'') then name else name @ str ''.pdf'')"
    if "\<not> py_in (str ''content='') (pre @ str ''content'')" "38 \<notin> set v" "10 \<notin> set v"
      "rest = [] \<or> hd rest = 38 \<or> hd rest = 10"
    using re_search_content_some [OF that(1), of "v @ rest"] value_segment [OF that(2) that(3) that(4)]
    by (simp add: url_to_filename_def Let_def)
  have 4: "re_sub_unsafe uni_alnum (a @ u @ b) = re_sub_unsafe uni_alnum a @ 95 # re_sub_unsafe uni_alnum b"
    if "u \<noteq> []" "\<forall>c\<in>set u. unsafe uni_alnum c" "a = [] \<or> \<not> unsafe uni_alnum (last a)"
      "b = [] \<or> \<not> unsafe uni_alnum (hd b)"
    using re_sub_unsafe_append [OF that(3), of "u @ b"] re_sub_unsafe_run [OF that(1) that(2) that(4)]
    by simp
  have 7: "endswith (py_lower (url_to_filename uni_alnum url)) (str ''.pdf'')"
  proof -
    have "endswith (py_lower (m @ str ''.pdf'')) (str ''.pdf'')" for m
      by (simp add: endswith_def py_lower_def str_def lower_char_def)
    then show ?thesis
      by (simp add: url_to_filename_def Let_def split: option.splits)
  qed
  show ?thesis
    using 1 2 4 7 re_sub_unsafe_safe [of s uni_alnum] re_sub_unsafe_isolated [of s uni_alnum]
      endswith_pdf [of n] url_to_filename_set [of uni_alnum url]
    by blast
qed

theorem url_to_filename_runs_witness:
  "url_to_filename (\<lambda>c. False) (str ''https://sds.diversey.com/'') = str ''downloaded_file.pdf''
   \<and> url_to_filename (\<lambda>c. False) (str ''https://x/y?content= Report 1.PDF&z=1'') = str ''Report_1.PDF''
   \<and> re_sub_unsafe (\<lambda>c. False) (str ''a@@b'') = str ''a_b''"
proof -
  note t = url_to_filename_runs [where url = "str ''https://sds.diversey.com/''"
      and uni_alnum = "\<lambda>c. False" and pre = "str ''https://x/y?''" and v = "str '' Report 1.PDF''"
      and rest = "str ''&z=1''" and s = "[]" and u = "str ''@@''" and a = "str ''a''" and b = "str ''b''"
      and n = "[]"]
  have 1: "\<not> py_in (str ''content='') (str ''https://sds.diversey.com/'')"
    by (simp add: str_def startswith_def)
  have 2: "\<not> py_in (str ''content='') (str ''https://x/y?'' @ str ''content'')"
    by (simp add: str_def startswith_def)
  have 3: "38 \<notin> set (str '' Report 1.PDF'')" "10 \<notin> set (str '' Report 1.PDF'')"
    "str ''&z=1'' = [] \<or> hd (str ''&z=1'') = 38 \<or> hd (str ''&z=1'') = 10"
    by (simp_all add: str_def)
  have 4: "str ''@@'' \<noteq> []" "\<forall>c\<in>set (str ''@@''). unsafe (\<lambda>c. False) c"
    "str ''a'' = [] \<or> \<not> unsafe (\<lambda>c. False) (last (str ''a''))"
    "str ''b'' = [] \<or> \<not> unsafe (\<lambda>c. False) (hd (str ''b''))"
    by (simp_all add: str_def unsafe_def is_word_def)
  have a: "url_to_filename (\<lambda>c. False) (str ''https://sds.diversey.com/'') = str ''downloaded_file.pdf''"
    using t 1 by blast
  have "url_to_filename (\<lambda>c. False) (str ''https://x/y?'' @ str ''content='' @ str '' Report 1.PDF'' @ str ''&z=1'') =
        (let name = re_sub_unsafe (\<lambda>c. False) (py_strip (str '' Report 1.PDF''))
         in if endswith (py_lower name) (str ''.pdf'') then name else name @ str ''.pdf'')"
    using t 2 3 by blast
  then have b: "url_to_filename (\<lambda>c. False) (str ''https://x/y?content= Report 1.PDF&z=1'') = str ''Report_1.PDF''"
    by (simp add: str_def py_strip_def isspace_def unsafe_def is_word_def endswith_def py_lower_def
        lower_char_def)
  have "re_sub_unsafe (\<lambda>c. False) (str ''a'' @ str ''@@'' @ str ''b'') =
      re_sub_unsafe (\<lambda>c. False) (str ''a'') @ 95 # re_sub_unsafe (\<lambda>c. False) (str ''b'')"
    using t 4 by blast
  then have c: "re_sub_unsafe (\<lambda>c. False) (str ''a@@b'') = str ''a_b''"
    by (simp add: str_def unsafe_def is_word_def)
  show ?thesis using a b c by simp
qed

section \<open>Properties of the directory walk\<close>

lemma endswith_iff: "endswith s p \<longleftrightarrow> (\<exists>q. s = q @ p)"
proof
  assume "endswith s p"
  then have "s = take (length s - length p) s @ p"
    using append_take_drop_id [of "length s - length p" s] by (simp add: endswith_def)
  then show "\<exists>q. s = q @ p" ..
next
  assume "\<exists>q. s = q @ p"
  then show "endswith s p" by (auto simp: endswith_def)
qed

lemma split_sep_ne: "split_sep s \<noteq> []"
  by (induction s) (auto split: list.splits)

lemma split_sep_append: "split_sep (xs @ 47 # ys) = split_sep xs @ split_sep ys"
proof (induction xs)
  case Nil
  show ?case by simp
next
  case (Cons c xs)
  obtain x rest where x: "split_sep xs = x # rest"
    using split_sep_ne [of xs] by (cases "split_sep xs") auto
  show ?case using Cons.IH x by simp
qed

lemma split_sep_noslash: "47 \<notin> set n \<Longrightarrow> split_sep n = [n]"
  by (induction n) auto

lemma norm_comps_append:
  "norm_comps i (cs @ ds) new = norm_comps i ds (norm_comps i cs new)"
  by (induction i cs new rule: norm_comps.induct) simp_all

lemma norm_comps_last:
  "valid_name n \<Longrightarrow> norm_comps i (cs @ [n]) new = norm_comps i cs new @ [n]"
  by (simp add: norm_comps_append valid_name_def)

lemma join_sep_snoc: "join_sep (xs @ [n]) = (if xs = [] then n else join_sep xs @ 47 # n)"
  by (induction xs rule: join_sep.induct) simp_all

lemma split_sep_last:
  assumes "47 \<notin> set n" "q = [] \<or> last q = 47"
  shows "\<exists>cs. split_sep (q @ n) = cs @ [n]"
proof (cases "q = []")
  case True
  then show ?thesis using assms(1) by (simp add: split_sep_noslash)
next
  case False
  then have "q = butlast q @ [47]" using assms(2) by (metis append_butlast_last_id)
  then have e: "q @ n = butlast q @ 47 # n" by (metis append.assoc append_Cons append_Nil)
  have "split_sep (q @ n) = split_sep (butlast q @ 47 # n)" by (simp only: e)
  also have "\<dots> = split_sep (butlast q) @ [n]"
    using split_sep_append [of "butlast q" n] split_sep_noslash [OF assms(1)] by simp
  finally show ?thesis ..
qed

lemma normpath_ends:
  assumes "valid_name n" "q = [] \<or> last q = 47"
  shows "\<exists>r. os_path_normpath (q @ n) = r @ n"
proof -
  have ne: "q @ n \<noteq> []" using assms(1) by (simp add: valid_name_def)
  obtain cs where cs: "split_sep (q @ n) = cs @ [n]"
    using split_sep_last [of n q] assms by (auto simp: valid_name_def)
  have j: "\<exists>r. replicate i 47 @ join_sep (norm_comps i (split_sep (q @ n)) []) = r @ n" for i
  proof -
    have "replicate i 47 @ join_sep (norm_comps i (split_sep (q @ n)) [])
        = replicate i 47 @ join_sep (norm_comps i cs [] @ [n])"
      using cs assms(1) by (simp add: norm_comps_last)
    also have "\<dots> = (replicate i 47 @ (if norm_comps i cs [] = [] then []
        else join_sep (norm_comps i cs []) @ [47])) @ n"
      by (simp add: join_sep_snoc)
    finally show ?thesis by blast
  qed
  have nn: "r @ n \<noteq> []" for r :: pystr using assms(1) by (simp add: valid_name_def)
  define i :: nat where "i = (if startswith (q @ n) (str ''/'')
               then (if startswith (q @ n) (str ''//'') \<and> \<not> startswith (q @ n) (str ''///'') then 2 else 1)
               else 0)"
  obtain r where r: "replicate i 47 @ join_sep (norm_comps i (split_sep (q @ n)) []) = r @ n"
    using j [of i] by blast
  have n0: "n \<noteq> []" using assms(1) by (simp add: valid_name_def)
  have "os_path_normpath (q @ n) = r @ n"
    using n0 r unfolding os_path_normpath_def Let_def i_def [symmetric] by simp
  then show ?thesis ..
qed

lemma join_ends:
  assumes "\<not> startswith (q @ n) (str ''/'')" "q = [] \<or> last q = 47"
  shows "\<exists>q'. os_path_join a (q @ n) = q' @ n \<and> (q' = [] \<or> last q' = 47)"
proof (cases "a = [] \<or> endswith a (str ''/'')")
  case True
  then have "os_path_join a (q @ n) = (a @ q) @ n" using assms(1) by (simp add: os_path_join_def)
  moreover have "a @ q = [] \<or> last (a @ q) = 47"
  proof (cases "q = []")
    case False
    then show ?thesis using assms(2) by simp
  next
    case q: True
    show ?thesis
    proof (cases "a = []")
      case True
      then show ?thesis using q by simp
    next
      case False
      then obtain r where "a = r @ str ''/''" using True by (auto simp: endswith_iff)
      then show ?thesis using q by (simp add: str_def)
    qed
  qed
  ultimately show ?thesis by blast
next
  case False
  then have "os_path_join a (q @ n) = (a @ str ''/'' @ q) @ n"
    using assms(1) by (simp add: os_path_join_def)
  moreover have "last (a @ str ''/'' @ q) = 47"
    using assms(2) by (cases "q = []") (simp_all add: str_def)
  ultimately show ?thesis by blast
qed

lemma valid_name_not_abs: "valid_name n \<Longrightarrow> \<not> startswith n (str ''/'')"
  by (cases n) (auto simp: valid_name_def startswith_def str_def)

lemma abspath_ends:
  assumes "valid_name n" "os_path_abspath cwd (os_path_join current_root n) = Inr p"
  shows "\<exists>r. p = r @ n"
proof -
  obtain q where q: "os_path_join current_root n = q @ n" "q = [] \<or> last q = 47"
    using join_ends [of "[]" n current_root] valid_name_not_abs [OF assms(1)] by auto
  show ?thesis
  proof (cases "os_path_isabs (q @ n)")
    case True
    then have "p = os_path_normpath (q @ n)" using assms(2) q(1) by (simp add: os_path_abspath_def)
    then show ?thesis using normpath_ends [OF assms(1) q(2)] by simp
  next
    case False
    then obtain d where d: "cwd = Some d" "p = os_path_normpath (os_path_join d (q @ n))"
      using assms(2) q(1) by (auto simp: os_path_abspath_def split: option.splits)
    obtain q' where "os_path_join d (q @ n) = q' @ n" "q' = [] \<or> last q' = 47"
      using join_ends [of q n d] False q(2) by (auto simp: os_path_isabs_def)
    then show ?thesis using d(2) normpath_ends [OF assms(1), of q'] by simp
  qed
qed

lemma filenames_loop_ends:
  "(\<forall>f\<in>set filenames. valid_name f) \<Longrightarrow> (\<forall>m\<in>set matched. endswith m ext) \<Longrightarrow>
   \<forall>m\<in>set (fst (filenames_loop cwd ext current_root filenames matched)). endswith m ext"
proof (induction filenames arbitrary: matched)
  case Nil
  then show ?case by simp
next
  case (Cons f fs)
  show ?case
  proof (cases "endswith f ext")
    case False
    have vs: "\<forall>f\<in>set fs. valid_name f" using Cons.prems(1) by simp
    have eq: "filenames_loop cwd ext current_root (f # fs) matched
        = filenames_loop cwd ext current_root fs matched"
      using False by simp
    show ?thesis unfolding eq by (rule Cons.IH [OF vs Cons.prems(2)])
  next
    case True
    show ?thesis
    proof (cases "os_path_abspath cwd (os_path_join current_root f)")
      case (Inl e)
      then show ?thesis using True Cons.prems(2) by simp
    next
      case (Inr p)
      have "valid_name f" using Cons.prems(1) by simp
      then obtain r where "p = r @ f" using abspath_ends [of f cwd current_root p] Inr by blast
      moreover obtain q where "f = q @ ext" using True by (auto simp: endswith_iff)
      ultimately have "p = (r @ q) @ ext" by simp
      then have "endswith p ext" unfolding endswith_iff by blast
      then have ms: "\<forall>m\<in>set (matched @ [p]). endswith m ext" using Cons.prems(2) by simp
      have vs: "\<forall>f\<in>set fs. valid_name f" using Cons.prems(1) by simp
      have eq: "filenames_loop cwd ext current_root (f # fs) matched
          = filenames_loop cwd ext current_root fs (matched @ [p])"
        using True Inr by simp
      show ?thesis unfolding eq by (rule Cons.IH [OF vs ms])
    qed
  qed
qed

lemma walk_loop_ends:
  "(\<forall>t\<in>set walked. \<forall>f\<in>set (snd (snd t)). valid_name f) \<Longrightarrow>
   (\<forall>m\<in>set matched. endswith m ext) \<Longrightarrow>
   \<forall>m\<in>set (fst (walk_loop cwd ext walked matched)). endswith m ext"
proof (induction walked arbitrary: matched)
  case Nil
  then show ?case by simp
next
  case (Cons t ts)
  obtain current_root dirs filenames where t: "t = (current_root, dirs, filenames)"
    by (cases t) auto
  obtain m' e where l: "filenames_loop cwd ext current_root filenames matched = (m', e)"
    by (cases "filenames_loop cwd ext current_root filenames matched") auto
  have v: "\<forall>f\<in>set filenames. valid_name f" using Cons.prems(1) t by simp
  have m: "\<forall>m\<in>set m'. endswith m ext"
    using filenames_loop_ends [OF v Cons.prems(2), of cwd current_root] l by simp
  have vs: "\<forall>t\<in>set ts. \<forall>f\<in>set (snd (snd t)). valid_name f" using Cons.prems(1) by simp
  show ?case
  proof (cases e)
    case None
    have eq: "walk_loop cwd ext (t # ts) matched = walk_loop cwd ext ts m'"
      using None t l by simp
    show ?thesis unfolding eq by (rule Cons.IH [OF vs m])
  next
    case (Some x)
    have eq: "walk_loop cwd ext (t # ts) matched = (m', Some x)"
      using Some t l by simp
    show ?thesis unfolding eq using m by simp
  qed
qed

lemma os_walk_valid:
  "valid_names t \<Longrightarrow> \<forall>x\<in>set (os_walk walk_top t). \<forall>f\<in>set (snd (snd x)). valid_name f"
proof (induction walk_top t rule: os_walk.induct)
  case (1 walk_top)
  show ?case by simp
next
  case (2 walk_top readable entries)
  show ?case
  proof (cases readable)
    case False
    then show ?thesis by simp
  next
    case True
    have here: "\<forall>f\<in>set (map fst (filter (\<lambda>e. \<not> is_dir (snd e)) entries)). valid_name f"
      using "2.prems" by auto
    have below: "\<forall>x\<in>set (os_walk (os_path_join walk_top (fst e)) (snd e)).
        \<forall>f\<in>set (snd (snd x)). valid_name f"
      if "e \<in> set entries" "is_dir (snd e)" for e
      using "2.IH" [of e] that True "2.prems" by simp
    show ?thesis using True here below by auto
  qed
qed

lemma walk_result:
  "walk_directory_and_extract_given_file_extension lookup cwd root_dir ext =
     fst (walk_loop cwd (if \<not> startswith ext (str ''.'') then str ''.'' @ ext else ext)
            (case lookup root_dir of None \<Rightarrow> [] | Some t \<Rightarrow> os_walk root_dir t) [])"
  by (simp add: walk_directory_and_extract_given_file_extension_def Let_def
      split: prod.splits option.splits py_exception.splits)

text \<open>
  C10: \<open>walk_directory_and_extract_given_file_extension\<close> returns a list for every
  root path and extension: whatever exception ends the loops, the list built so far
  is what it returns. A root that does not exist, that cannot be listed or that is a
  file gives the empty list. Every path returned ends with the extension, with a
  period put in front of it when it did not start with one; the comparison is of the
  characters as they are.
\<close>

theorem walk_directory_never_raises:
  "(lookup root_dir = None \<longrightarrow>
      walk_directory_and_extract_given_file_extension lookup cwd root_dir ext = [])
   \<and> (lookup root_dir = Some (Dir False entries) \<longrightarrow>
      walk_directory_and_extract_given_file_extension lookup cwd root_dir ext = [])
   \<and> (lookup root_dir = Some RegularFile \<longrightarrow>
      walk_directory_and_extract_given_file_extension lookup cwd root_dir ext = [])
   \<and> ((case lookup root_dir of None \<Rightarrow> True | Some t \<Rightarrow> valid_names t) \<longrightarrow>
      (\<forall>p\<in>set (walk_directory_and_extract_given_file_extension lookup cwd root_dir ext).
         endswith p (if startswith ext (str ''.'') then ext else str ''.'' @ ext)
         \<and> (\<exists>q. p = q @ (if startswith ext (str ''.'') then ext else str ''.'' @ ext))))
   \<and> walk_directory_and_extract_given_file_extension lookup cwd root_dir ext =
       fst (walk_loop cwd (if startswith ext (str ''.'') then ext else str ''.'' @ ext)
              (case lookup root_dir of None \<Rightarrow> [] | Some t \<Rightarrow> os_walk root_dir t) [])"
proof -
  let ?ext = "if \<not> startswith ext (str ''.'') then str ''.'' @ ext else ext"
  let ?walked = "case lookup root_dir of None \<Rightarrow> [] | Some t \<Rightarrow> os_walk root_dir t"
  have v: "\<forall>t\<in>set ?walked. \<forall>f\<in>set (snd (snd t)). valid_name f"
    if "case lookup root_dir of None \<Rightarrow> True | Some t \<Rightarrow> valid_names t"
    using that os_walk_valid [of _ root_dir] by (cases "lookup root_dir") auto
  have e: "\<forall>m\<in>set (fst (walk_loop cwd ?ext ?walked [])). endswith m ?ext"
    if "case lookup root_dir of None \<Rightarrow> True | Some t \<Rightarrow> valid_names t"
    using walk_loop_ends [OF v [OF that], of "[]" ?ext cwd] by simp
  have 4: "\<forall>p\<in>set (walk_directory_and_extract_given_file_extension lookup cwd root_dir ext).
         endswith p (if startswith ext (str ''.'') then ext else str ''.'' @ ext)
         \<and> (\<exists>q. p = q @ (if startswith ext (str ''.'') then ext else str ''.'' @ ext))"
    if "case lookup root_dir of None \<Rightarrow> True | Some t \<Rightarrow> valid_names t"
    using e [OF that] unfolding walk_result endswith_iff by (cases "startswith ext (str ''.'')") simp_all
  have 1: "lookup root_dir = None \<Longrightarrow>
      walk_directory_and_extract_given_file_extension lookup cwd root_dir ext = []"
    unfolding walk_result by simp
  have 2: "lookup root_dir = Some (Dir False entries) \<Longrightarrow>
      walk_directory_and_extract_given_file_extension lookup cwd root_dir ext = []"
    unfolding walk_result by simp
  have 3: "lookup root_dir = Some RegularFile \<Longrightarrow>
      walk_directory_and_extract_given_file_extension lookup cwd root_dir ext = []"
    unfolding walk_result by simp
  have 5: "walk_directory_and_extract_given_file_extension lookup cwd root_dir ext =
       fst (walk_loop cwd (if startswith ext (str ''.'') then ext else str ''.'' @ ext)
              (case lookup root_dir of None \<Rightarrow> [] | Some t \<Rightarrow> os_walk root_dir t) [])"
    unfolding walk_result by (cases "startswith ext (str ''.'')") simp_all
  show ?thesis using 1 2 3 4 5 by blast
qed

theorem walk_directory_never_raises_witness:
  "valid_names pdfs_tree
   \<and> walk_directory_and_extract_given_file_extension pdfs_lookup (Some (str ''/home/u''))
        (str ''./PDFs'') (str ''pdf'')
     = [str ''/home/u/PDFs/a.pdf'', str ''/home/u/PDFs/old/c.pdf'']
   \<and> list_all (\<lambda>p. endswith p (str ''.pdf''))
        (walk_directory_and_extract_given_file_extension pdfs_lookup (Some (str ''/home/u''))
           (str ''./PDFs'') (str ''pdf''))
   \<and> walk_directory_and_extract_given_file_extension pdfs_lookup (Some (str ''/home/u''))
        (str ''./missing'') (str ''.pdf'') = []
   \<and> walk_directory_and_extract_given_file_extension pdfs_lookup None
        (str ''./PDFs'') (str ''.pdf'') = []"
proof -
  have v: "valid_names pdfs_tree"
    by (simp add: pdfs_tree_def valid_name_def str_def)
  have w: "os_walk (str ''./PDFs'') pdfs_tree =
     [(str ''./PDFs'', [str ''old'', str ''locked''], [str ''a.pdf'', str ''B.PDF'']),
      (str ''./PDFs/old'', [], [str ''c.pdf'', str ''notes.txt''])]"
    by (simp add: pdfs_tree_def os_path_join_def startswith_def endswith_def str_def)
  have a: "os_path_abspath (Some (str ''/home/u'')) (os_path_join (str ''./PDFs'') (str ''a.pdf''))
      = Inr (str ''/home/u/PDFs/a.pdf'')"
    by (simp add: os_path_abspath_def os_path_isabs_def os_path_normpath_def os_path_join_def
        startswith_def endswith_def str_def Let_def)
  have c: "os_path_abspath (Some (str ''/home/u'')) (os_path_join (str ''./PDFs/old'') (str ''c.pdf''))
      = Inr (str ''/home/u/PDFs/old/c.pdf'')"
    by (simp add: os_path_abspath_def os_path_isabs_def os_path_normpath_def os_path_join_def
        startswith_def endswith_def str_def Let_def)
  have e: "endswith (str ''a.pdf'') (str ''.pdf'')" "\<not> endswith (str ''B.PDF'') (str ''.pdf'')"
    "endswith (str ''c.pdf'') (str ''.pdf'')" "\<not> endswith (str ''notes.txt'') (str ''.pdf'')"
    by (simp_all add: endswith_def str_def)
  have s: "\<not> startswith (str ''pdf'') (str ''.'')" "startswith (str ''.pdf'') (str ''.'')"
    "str ''.'' @ str ''pdf'' = str ''.pdf''"
    by (simp_all add: startswith_def str_def)
  have l: "pdfs_lookup (str ''./PDFs'') = Some pdfs_tree" "pdfs_lookup (str ''./missing'') = None"
    by (simp_all add: pdfs_lookup_def str_def)
  have r: "walk_directory_and_extract_given_file_extension pdfs_lookup (Some (str ''/home/u''))
        (str ''./PDFs'') (str ''pdf'')
     = [str ''/home/u/PDFs/a.pdf'', str ''/home/u/PDFs/old/c.pdf'']"
    by (simp add: walk_directory_and_extract_given_file_extension_def Let_def l s w a c e)
  have n: "walk_directory_and_extract_given_file_extension pdfs_lookup None
        (str ''./PDFs'') (str ''.pdf'') = []"
  proof -
    have "os_path_abspath None (os_path_join (str ''./PDFs'') (str ''a.pdf'')) = Inl FileNotFoundError"
      by (simp add: os_path_abspath_def os_path_isabs_def os_path_join_def
          startswith_def endswith_def str_def)
    then show ?thesis
      by (simp add: walk_directory_and_extract_given_file_extension_def Let_def l s w e)
  qed
  note t = walk_directory_never_raises [of pdfs_lookup "str ''./missing''" "Some (str ''/home/u'')" "str ''.pdf''" "[]"]
    walk_directory_never_raises [of pdfs_lookup "str ''./PDFs''" "Some (str ''/home/u'')" "str ''pdf''" "[]"]
  have m: "walk_directory_and_extract_given_file_extension pdfs_lookup (Some (str ''/home/u''))
        (str ''./missing'') (str ''.pdf'') = []"
    using t(1) l(2) by blast
  have "\<forall>p\<in>set (walk_directory_and_extract_given_file_extension pdfs_lookup (Some (str ''/home/u''))
        (str ''./PDFs'') (str ''pdf'')). endswith p (str ''.'' @ str ''pdf'')"
    using t(2) l(1) v s(1) by simp
  then have "list_all (\<lambda>p. endswith p (str ''.pdf''))
        (walk_directory_and_extract_given_file_extension pdfs_lookup (Some (str ''/home/u''))
           (str ''./PDFs'') (str ''pdf''))"
    unfolding s(3) list_all_iff .
  then show ?thesis using v r m n by simp
qed

end
